(* ===== verification/Prelude.thy ===== *)
theory Prelude
  imports Complex_Main "HOL-Library.Word" "HOL-Library.Signed_Division"
begin

text \<open>
  Shared vocabulary of the development: the JavaScript primitives the sources of
  \<^verbatim>\<open>src/\<close> rely on, written once.
  \<^item> A \<^verbatim>\<open>Uint8Array\<close> cell is an \<open>8 word\<close> (\<open>byte\<close>); a store into it is
    \<open>ToUint8\<close>, i.e.\ the integer taken modulo 256 (\<open>to_uint8\<close>).
  \<^item> \<^verbatim>\<open>a[m]\<close> read in a bitwise expression (\<^verbatim>\<open>a[m] << 8 | a[m+1]\<close>) is 0 past the
    end of the array, because \<^verbatim>\<open>undefined\<close> converts to 0 there (\<open>byte_at\<close>).
  \<^item> \<^verbatim>\<open>%\<close> on numbers truncates towards zero (\<open>js_rem\<close>, HOL's \<open>smod\<close>), unlike
    HOL's \<open>mod\<close>; the sources fix the sign by hand, and \<open>js_rem_fix_sign\<close> shows
    the result is then HOL's \<open>mod\<close>.
  \<^item> \<^verbatim>\<open>Number.prototype.toString(r)\<close> on a non-negative integer (\<open>radix_string\<close>)
    and \<^verbatim>\<open>Array.prototype.join\<close> (\<open>js_join\<close>).
\<close>

named_theorems js_simps "evaluation rules for the JavaScript primitives of the model"

type_synonym byte = "8 word"

definition js_rem :: "int \<Rightarrow> int \<Rightarrow> int" where
  "js_rem a b = a smod b"

definition to_uint8 :: "int \<Rightarrow> byte" where
  "to_uint8 x = word_of_int x"

definition byte_at :: "byte list \<Rightarrow> nat \<Rightarrow> int" where
  "byte_at a m = (if m < length a then uint (a ! m) else 0)"

definition be16 :: "byte list \<Rightarrow> nat \<Rightarrow> int" where
  "be16 a m = byte_at a m * 256 + byte_at a (Suc m)"

definition be24 :: "byte list \<Rightarrow> nat \<Rightarrow> int" where
  "be24 a m = byte_at a m * 65536 + byte_at a (Suc m) * 256 + byte_at a (Suc (Suc m))"

definition digit_char :: "nat \<Rightarrow> char" where
  "digit_char d = (if d < 10 then char_of (48 + d) else char_of (87 + d))"

function radix_string :: "nat \<Rightarrow> nat \<Rightarrow> string" where
  "radix_string r n =
     (if r < 2 \<or> n < r then [digit_char n]
      else radix_string r (n div r) @ [digit_char (n mod r)])"
  by pat_completeness auto
termination
  by (relation "measure (\<lambda>(r, n). n)") auto

declare radix_string.simps [simp del]

fun js_join :: "string \<Rightarrow> string list \<Rightarrow> string" where
  "js_join sep [] = []"
| "js_join sep [x] = x"
| "js_join sep (x # y # zs) = x @ sep @ js_join sep (y # zs)"

text \<open>\<^verbatim>\<open>xs[j]\<close> on an array of possibly-\<^verbatim>\<open>undefined\<close> numbers: \<open>None\<close> is
  \<^verbatim>\<open>undefined\<close> (and the \<^verbatim>\<open>NaN\<close> it turns into under arithmetic), also for
  an index out of range, negative ones included.\<close>

definition js_idx :: "'a option list \<Rightarrow> int \<Rightarrow> 'a option" where
  "js_idx xs j = (if 0 \<le> j \<and> j < int (length xs) then xs ! nat j else None)"

text \<open>\<^verbatim>\<open>String.prototype.trim\<close> and the class \<^verbatim>\<open>\s\<close> of regular expressions on
  a string of code units 0--255: the white space
  among them is tab, line feed, vertical tab, form feed, carriage return, space and
  no-break space (160).\<close>

definition js_space :: "char \<Rightarrow> bool" where
  "js_space c \<longleftrightarrow> of_char c \<in> {9, 10, 11, 12, 13, 32, 160 :: nat}"

definition js_trim :: "string \<Rightarrow> string" where
  "js_trim s = rev (dropWhile js_space (rev (dropWhile js_space s)))"

text \<open>The nullish coalescing \<^verbatim>\<open>v ?? d\<close>, for a value that may be \<^verbatim>\<open>null\<close> or
  \<^verbatim>\<open>undefined\<close>.\<close>

definition js_nullish :: "'a option \<Rightarrow> 'a \<Rightarrow> 'a" where
  "js_nullish v d = (case v of Some x \<Rightarrow> x | None \<Rightarrow> d)"

text \<open>\<^verbatim>\<open>toUpperCase\<close> of a Latin-1 character: \<open>a\<close>--\<open>z\<close> and \<open>0xE0\<close>--\<open>0xFE\<close> but
  the division sign. The micro sign and y with diaeresis, whose upper case lies outside
  Latin-1, are kept: no other character has the same upper case, so equality of upper cases
  is the same.\<close>

definition js_upper_char :: "char \<Rightarrow> char" where
  "js_upper_char c =
     (let n = of_char c :: nat in
      if (97 \<le> n \<and> n \<le> 122) \<or> (224 \<le> n \<and> n \<le> 254 \<and> n \<noteq> 247) then char_of (n - 32) else c)"

definition js_upper :: "string \<Rightarrow> string" where
  "js_upper s = map js_upper_char s"

section \<open>Generic lemmas\<close>

lemma map_of_rev_distinct: "distinct (map fst xs) \<Longrightarrow> map_of (rev xs) = map_of xs"
proof (induction xs)
  case Nil
  then show ?case by simp
next
  case (Cons x xs)
  obtain a b where x: "x = (a, b)" by (cases x)
  have "map_of xs a = None" using Cons.prems x by (simp add: map_of_eq_None_iff)
  then show ?case using Cons x by (simp add: map_add_def fun_eq_iff split: option.splits)
qed

lemma js_nullish_simps [simp]: "js_nullish None d = d" "js_nullish (Some x) d = x"
  by (simp_all add: js_nullish_def)

lemma js_rem_fix_sign [js_simps]:
  assumes "0 < b"
  shows "(if js_rem a b < 0 then js_rem a b + b else js_rem a b) = a mod b"
proof (cases "0 \<le> a")
  case True
  then have "js_rem a b = a mod b"
    using assms by (simp add: js_rem_def signed_modulo_int_eq_modulo_int sgn_if)
  with assms show ?thesis by (simp add: pos_mod_sign leD)
next
  case False
  then show ?thesis
    using assms
    by (auto simp: js_rem_def signed_modulo_int_eq_modulo_int sgn_if dvd_eq_mod_eq_0
                   mod_pos_pos_trivial)
qed

lemma byte_at_bounds [js_simps]: "0 \<le> byte_at a m" "byte_at a m < 256"
  unfolding byte_at_def using uint_lt2p [of "a ! m"] by auto

lemma be16_bounds: "0 \<le> be16 a m" "be16 a m < 65536"
  using byte_at_bounds [of a m] byte_at_bounds [of a "Suc m"] by (auto simp: be16_def)

lemma be24_bounds: "0 \<le> be24 a m" "be24 a m < 16777216"
  using byte_at_bounds [of a m] byte_at_bounds [of a "Suc m"] byte_at_bounds [of a "Suc (Suc m)"]
  by (auto simp: be24_def)

lemma byte_at_Cons_0 [js_simps]: "byte_at (x # xs) 0 = uint x"
  by (simp add: byte_at_def)

lemma byte_at_Cons_Suc [js_simps]: "byte_at (x # xs) (Suc m) = byte_at xs m"
  by (simp add: byte_at_def)

lemma byte_at_drop: "byte_at (drop k a) m = byte_at a (k + m)"
  by (auto simp: byte_at_def)

lemma to_uint8_uint [js_simps]: "uint (to_uint8 x) = x mod 256"
  by (simp add: to_uint8_def uint_word_of_int)

lemma list_of_length4: "length xs = 4 \<Longrightarrow> \<exists>a0 a1 a2 a3. xs = [a0, a1, a2, a3]"
  by (fastforce simp: length_Suc_conv numeral_eq_Suc)

lemma list_of_length16: "length xs = 16 \<Longrightarrow>
  \<exists>c0 c1 c2 c3 c4 c5 c6 c7 c8 c9 c10 c11 c12 c13 c14 c15.
    xs = [c0, c1, c2, c3, c4, c5, c6, c7, c8, c9, c10, c11, c12, c13, c14, c15]"
  by (fastforce simp: length_Suc_conv numeral_eq_Suc)

lemma js_idx_append_last [js_simps]: "js_idx (xs @ [x]) (int (length xs)) = x"
  by (simp add: js_idx_def)

lemma js_idx_append [js_simps]: "0 \<le> j \<Longrightarrow> j < int (length xs) \<Longrightarrow> js_idx (xs @ ys) j = js_idx xs j"
  by (simp add: js_idx_def nth_append nat_less_iff)

lemma js_idx_map_upt:
  "js_idx (map f [0..<n]) (int i) = (if i < n then f i else None)"
  by (simp add: js_idx_def)

lemma int_div_mod_256 [js_simps]: "int (n div 256) * 256 + int (n mod 256) = int n"
  by (metis div_mult_mod_eq of_nat_add of_nat_mult of_nat_numeral)

lemma nth_append_middle [js_simps]: "k < length bs \<Longrightarrow> (pre @ bs @ rest) ! (length pre + k) = bs ! k"
  by (simp add: nth_append)

lemma byte_at_append_middle [js_simps]:
  "k < length bs \<Longrightarrow> byte_at (pre @ bs @ rest) (length pre + k) = uint (bs ! k)"
  by (simp add: byte_at_def nth_append)

lemma int_div_mod_65536 [js_simps]:
  "int (f div 65536) * 65536 + int (f div 256 mod 256) * 256 + int (f mod 256) = int f"
proof -
  have 1: "f mod (256 * 256) = 256 * (f div 256 mod 256) + f mod 256"
    by (rule mod_mult2_eq)
  have 2: "f div 65536 * 65536 + f mod 65536 = f"
    by (rule div_mult_mod_eq)
  from 1 2 have "f div 65536 * 65536 + f div 256 mod 256 * 256 + f mod 256 = f"
    by simp
  then have "int (f div 65536 * 65536 + f div 256 mod 256 * 256 + f mod 256) = int f"
    by (rule arg_cong)
  then show ?thesis by (simp only: of_nat_add of_nat_mult of_nat_numeral)
qed

lemma be16_drop: "be16 a m = be16 (drop m a) 0"
  by (simp add: be16_def byte_at_drop)

lemma be24_drop: "be24 a m = be24 (drop m a) 0"
  by (simp add: be24_def byte_at_drop)

lemma be16_Cons [js_simps]: "be16 (x # y # rest) 0 = uint x * 256 + uint y"
  by (simp add: be16_def byte_at_def)

lemma be24_Cons [js_simps]: "be24 (x # y # z # rest) 0 = uint x * 65536 + uint y * 256 + uint z"
  by (simp add: be24_def byte_at_def)

end
