(* ===== verification/DirectoryDecoder.thy ===== *)
theory DirectoryDecoder
  imports Prelude
begin

text \<open>
  Model of \<^verbatim>\<open>parseServers\<close> and \<^verbatim>\<open>getActiveServers\<close> (\<^verbatim>\<open>src/getActiveServers.js\<close>).
  The blob is a list of UTF-16 code units (\<^verbatim>\<open>charCodeAt\<close>). The loop of lines 45--122
  is \<open>parse_char\<close> folded over the blob from index 1; the field dispatch of lines
  52--118 is \<open>store_field\<close>, the emission of one or two descriptors (lines 73--109)
  is \<open>emit_record\<close>. The cluster objects \<^verbatim>\<open>clus\<close> are a map from cluster id to
  their aggregate; the \<^verbatim>\<open>cluo\<close> back-pointer and the unused \<^verbatim>\<open>sis\<close>/\<^verbatim>\<open>ptms\<close>
  arrays are not kept.
\<close>

record server =
  ip :: string
  po :: int
  ac :: int
  sid :: int
  active :: bool
  wg :: int
  clu :: int

record cluster =
  swg :: int
  tac :: int
  members :: "server list"

record parse_st =
  ps_m :: nat
  ps_n :: nat
  ps_cv :: int
  ps_cav :: int
  ps_ia :: "int list"
  ps_i6a :: "int list"
  ps_pa :: "int list"
  ps_aa :: "int list"
  ps_clu :: "int list"
  ps_sida :: "int list"
  ps_active :: bool
  ps_sos :: "server list"
  ps_clus :: "int \<Rightarrow> cluster option"

definition parse_init :: parse_st where
  "parse_init = \<lparr>ps_m = 0, ps_n = 0, ps_cv = 0, ps_cav = 0, ps_ia = [], ps_i6a = [],
     ps_pa = [], ps_aa = [], ps_clu = [], ps_sida = [], ps_active = False, ps_sos = [],
     ps_clus = (\<lambda>_. None)\<rparr>"

text \<open>\<^verbatim>\<open>arr.reduce((acc, v) => acc * 256 + v, 0)\<close>.\<close>

definition reduce256 :: "int list \<Rightarrow> int" where
  "reduce256 xs = foldl (\<lambda>acc v. acc * 256 + v) 0 xs"

text \<open>The hextets of lines 83--87: \<^verbatim>\<open>i6a[k] * 256 + i6a[k + 1]\<close> for even \<open>k\<close>.\<close>

fun hextets :: "int list \<Rightarrow> int list" where
  "hextets (a # b # rest) = (a * 256 + b) # hextets rest"
| "hextets _ = []"

text \<open>One pass of the \<^verbatim>\<open>for (z = 1; z <= 2; z++)\<close> body: the descriptor for \<open>z\<close>
  (\<open>None\<close> where the loop \<^verbatim>\<open>break\<close>s), lines 78--97.\<close>

definition descriptor :: "parse_st \<Rightarrow> nat \<Rightarrow> server option" where
  "descriptor st z =
     (let po = reduce256 (ps_pa st); ac = reduce256 (ps_aa st); sid = reduce256 (ps_sida st);
          mk = (\<lambda>ip c. \<lparr>ip = ip, po = po, ac = ac, sid = sid, active = ps_active st,
                        wg = ac + 5, clu = c\<rparr>)
      in if z = 1 then Some (mk (js_join ''.'' (map (radix_string 10 \<circ> nat) (ps_ia st)))
                               (hd (ps_clu st)))
         else if length (ps_i6a st) = 16 then
           (let fip6 = hextets (ps_i6a st) in
            if \<not> (\<exists>q \<in> set fip6. q \<noteq> 0) then None
            else Some (mk (''['' @ js_join '':'' (map (radix_string 16 \<circ> nat) fip6) @ '']'')
                          (hd (ps_clu st) + 1000)))
         else None)"

text \<open>Adding one descriptor to its cluster and to \<^verbatim>\<open>sos\<close>, lines 99--108.\<close>

definition add_server :: "parse_st \<Rightarrow> server \<Rightarrow> parse_st" where
  "add_server st sv =
     (let c0 = (case ps_clus st (clu sv) of None \<Rightarrow> \<lparr>swg = 0, tac = 0, members = []\<rparr>
                                        | Some c \<Rightarrow> c);
          c1 = c0\<lparr>swg := (if active sv then swg c0 + wg sv else swg c0),
                  members := members c0 @ [sv], tac := tac c0 + ac sv\<rparr>
      in st\<lparr>ps_clus := (ps_clus st)(clu sv \<mapsto> c1), ps_sos := ps_sos st @ [sv]\<rparr>)"

text \<open>The \<^verbatim>\<open>z\<close> loop stops at the first \<^verbatim>\<open>break\<close>; \<open>z = 1\<close> never breaks.\<close>

definition emit_record :: "parse_st \<Rightarrow> parse_st" where
  "emit_record st =
     (let st1 = (case descriptor st 1 of None \<Rightarrow> st | Some sv \<Rightarrow> add_server st sv);
          st2 = (case descriptor st 2 of None \<Rightarrow> st1 | Some sv \<Rightarrow> add_server st1 sv)
      in st2\<lparr>ps_ia := [], ps_i6a := [], ps_pa := [], ps_aa := [], ps_clu := [], ps_sida := [],
             ps_m := 0\<rparr>)"

definition store_field :: "parse_st \<Rightarrow> parse_st" where
  "store_field st =
     (let m = ps_m st; cv = ps_cv st in
      if m = 0 then st\<lparr>ps_active := cv \<le> 26, ps_m := 1\<rparr>
      else if m = 1 then
        (let ia = ps_ia st @ [cv] in st\<lparr>ps_ia := ia, ps_m := (if length ia = 4 then 2 else 1)\<rparr>)
      else if m = 2 then
        (let i6 = ps_i6a st @ [cv] in st\<lparr>ps_i6a := i6, ps_m := (if length i6 = 16 then 3 else 2)\<rparr>)
      else if m = 3 then
        (let pa = ps_pa st @ [cv] in st\<lparr>ps_pa := pa, ps_m := (if length pa = 2 then 4 else 3)\<rparr>)
      else if m = 4 then
        (let aa = ps_aa st @ [cv] in st\<lparr>ps_aa := aa, ps_m := (if length aa = 2 then 5 else 4)\<rparr>)
      else if m = 5 then
        (let cl = ps_clu st @ [cv] in st\<lparr>ps_clu := cl, ps_m := (if length cl = 1 then 6 else 5)\<rparr>)
      else if m = 6 then
        (let sa = ps_sida st @ [cv] in
         if length sa = 2 then emit_record (st\<lparr>ps_sida := sa\<rparr>) else st\<lparr>ps_sida := sa\<rparr>)
      else st)"

text \<open>One iteration of the \<^verbatim>\<open>while (j < s.length)\<close> loop on code unit \<open>c\<close>.\<close>

definition parse_char :: "parse_st \<Rightarrow> nat \<Rightarrow> parse_st" where
  "parse_char st c =
     (let r = js_rem (int c - 97 - ps_cav st) 26;
          v = (if r < 0 then r + 26 else r);
          st1 = st\<lparr>ps_cv := ps_cv st * 16 + v, ps_cav := ps_cav st + 7\<rparr>
      in if ps_n st = 1 then (store_field st1)\<lparr>ps_cv := 0, ps_n := 0\<rparr>
         else st1\<lparr>ps_n := Suc (ps_n st)\<rparr>)"

definition parse_loop :: "nat list \<Rightarrow> parse_st" where
  "parse_loop s = foldl parse_char parse_init (drop 1 s)"

definition parseServers :: "nat list \<Rightarrow> server list" where
  "parseServers s = (if s = [] then [] else filter active (ps_sos (parse_loop s)))"

datatype fetch_error = FetchFailed string

definition getActiveServers :: "fetch_error + nat list \<Rightarrow> server list" where
  "getActiveServers r = (case r of Inl _ \<Rightarrow> [] | Inr text \<Rightarrow> parseServers text)"

section \<open>Encoder and record-level reading\<close>

text \<open>
  The inverse of the decoding (the encoder the spec's round-trip property speaks of): a
  directory record of byte-sized fields (\<open>dir_record\<close>) is laid out as the 28 bytes the
  decoder reads (\<open>record_bytes\<close>), each byte written as two code units carrying its
  high and low nibble under the rolling offset (\<open>enc_bytes\<close>), after one leading code
  unit the decoder skips. \<open>record_servers\<close> is what a record denotes (spec section 4.1): an
  IPv4 descriptor and, when some hextet is non-zero, an IPv6 one with cluster id
  offset by 1000. \<open>push_byte\<close>, \<open>rec_start\<close> and \<open>fill_state\<close> describe the decoder at
  byte granularity and are used by the proofs only.
\<close>
record dir_record =
  r_flag :: nat
  r_v4 :: "nat list"
  r_v6 :: "nat list"
  r_port :: nat
  r_load :: nat
  r_clu :: nat
  r_sid :: nat

definition wf_record :: "dir_record \<Rightarrow> bool" where
  "wf_record r \<longleftrightarrow> r_flag r < 256 \<and> length (r_v4 r) = 4 \<and> (\<forall>x \<in> set (r_v4 r). x < 256)
     \<and> length (r_v6 r) = 16 \<and> (\<forall>x \<in> set (r_v6 r). x < 256) \<and> r_port r < 65536
     \<and> r_load r < 65536 \<and> r_clu r < 256 \<and> r_sid r < 65536"

definition record_bytes :: "dir_record \<Rightarrow> nat list" where
  "record_bytes r = r_flag r # r_v4 r @ r_v6 r @
     [r_port r div 256, r_port r mod 256, r_load r div 256, r_load r mod 256, r_clu r,
      r_sid r div 256, r_sid r mod 256]"

definition enc_nibble :: "int \<Rightarrow> nat \<Rightarrow> nat" where
  "enc_nibble cav h = nat (97 + (int h + cav) mod 26)"

fun enc_bytes :: "int \<Rightarrow> nat list \<Rightarrow> nat list" where
  "enc_bytes cav [] = []"
| "enc_bytes cav (b # bs) = enc_nibble cav (b div 16) # enc_nibble (cav + 7) (b mod 16) # enc_bytes (cav + 14) bs"

definition encode_blob :: "dir_record list \<Rightarrow> nat list" where
  "encode_blob rs = 97 # enc_bytes 0 (concat (map record_bytes rs))"

fun pairs256 :: "nat list \<Rightarrow> nat list" where
  "pairs256 (a # b # rest) = (a * 256 + b) # pairs256 rest"
| "pairs256 _ = []"

definition record_servers :: "dir_record \<Rightarrow> server list" where
  "record_servers r =
     (let mk = (\<lambda>ip c. \<lparr>ip = ip, po = int (r_port r), ac = int (r_load r), sid = int (r_sid r),
                         active = r_flag r \<le> 26, wg = int (r_load r) + 5, clu = c\<rparr>);
          q = pairs256 (r_v6 r)
      in mk (js_join ''.'' (map (radix_string 10) (r_v4 r))) (int (r_clu r)) #
         (if list_all (\<lambda>x. x = 0) q then []
          else [mk (''['' @ js_join '':'' (map (radix_string 16) q) @ '']'') (int (r_clu r) + 1000)]))"

definition push_byte :: "parse_st \<Rightarrow> nat \<Rightarrow> parse_st" where
  "push_byte st b = (store_field (st\<lparr>ps_n := 1, ps_cv := int b, ps_cav := ps_cav st + 14\<rparr>))\<lparr>ps_cv := 0, ps_n := 0\<rparr>"

definition rec_start :: "parse_st \<Rightarrow> bool" where
  "rec_start st \<longleftrightarrow> ps_m st = 0 \<and> ps_n st = 0 \<and> ps_cv st = 0 \<and> ps_ia st = [] \<and> ps_i6a st = []
     \<and> ps_pa st = [] \<and> ps_aa st = [] \<and> ps_clu st = [] \<and> ps_sida st = []"

definition fill_state :: "parse_st \<Rightarrow> dir_record \<Rightarrow> parse_st" where
  "fill_state st r = st\<lparr>ps_active := int (r_flag r) \<le> 26, ps_ia := map int (r_v4 r),
     ps_i6a := map int (r_v6 r), ps_pa := [int (r_port r div 256), int (r_port r mod 256)],
     ps_aa := [int (r_load r div 256), int (r_load r mod 256)], ps_clu := [int (r_clu r)],
     ps_m := 6, ps_n := 1, ps_cv := int (r_sid r mod 256), ps_cav := 392 + ps_cav st,
     ps_sida := [int (r_sid r div 256), int (r_sid r mod 256)]\<rparr>"

definition example_record :: dir_record where
  "example_record = \<lparr>r_flag = 0, r_v4 = [1, 2, 3, 4], r_v6 = replicate 16 0, r_port = 1234,
     r_load = 5, r_clu = 2, r_sid = 0\<rparr>"

section \<open>Properties of the decoder\<close>
lemma decode_enc_nibble:
  assumes "h < 26"
  shows "(if js_rem (int (enc_nibble cav h) - 97 - cav) 26 < 0
          then js_rem (int (enc_nibble cav h) - 97 - cav) 26 + 26
          else js_rem (int (enc_nibble cav h) - 97 - cav) 26) = int h"
proof -
  have "(int (enc_nibble cav h) - 97 - cav) mod 26 = ((int h + cav) mod 26 - cav) mod 26"
    by (simp add: enc_nibble_def)
  also have "\<dots> = (int h + cav - cav) mod 26"
    by (rule mod_diff_left_eq)
  also have "\<dots> = int h"
    using assms by simp
  finally show ?thesis by (simp add: js_rem_fix_sign)
qed

lemma store_field_frame:
  "ps_cav (store_field st) = ps_cav st" "ps_n (store_field st) = ps_n st"
  "ps_cv (store_field st) = ps_cv st"
  by (simp_all add: store_field_def emit_record_def add_server_def Let_def split: option.splits)

lemma parse_char_enc:
  assumes "h < 26"
  shows "parse_char st (enc_nibble (ps_cav st) h) =
    (if ps_n st = 1 then (store_field (st\<lparr>ps_cv := ps_cv st * 16 + int h, ps_cav := ps_cav st + 7\<rparr>))\<lparr>ps_cv := 0, ps_n := 0\<rparr>
     else st\<lparr>ps_cv := ps_cv st * 16 + int h, ps_cav := ps_cav st + 7, ps_n := Suc (ps_n st)\<rparr>)"
  unfolding parse_char_def Let_def decode_enc_nibble [OF assms] by simp

lemma enc_byte_push:
  assumes "ps_n st = 0" "ps_cv st = 0" "b < 256"
  shows "foldl parse_char st [enc_nibble (ps_cav st) (b div 16), enc_nibble (ps_cav st + 7) (b mod 16)]
         = push_byte st b"
proof -
  have h: "b div 16 < 26" "b mod 16 < 26" using assms(3) by auto
  have b: "int (b div 16) * 16 + int (b mod 16) = int b"
    using div_mult_mod_eq [of b 16] by (metis of_nat_add of_nat_mult of_nat_numeral)
  define st1 where "st1 = st\<lparr>ps_cv := int (b div 16), ps_cav := ps_cav st + 7, ps_n := 1\<rparr>"
  have 1: "parse_char st (enc_nibble (ps_cav st) (b div 16)) = st1"
    using assms(1,2) by (simp add: parse_char_enc [OF h(1)] st1_def)
  have 2: "parse_char st1 (enc_nibble (ps_cav st + 7) (b mod 16)) = push_byte st b"
    using parse_char_enc [OF h(2), of st1] b by (simp add: st1_def push_byte_def add.commute)
  from 1 2 show ?thesis by simp
qed

lemma enc_bytes_push:
  assumes "ps_n st = 0" "ps_cv st = 0" "\<forall>b \<in> set bs. b < 256"
  shows "foldl parse_char st (enc_bytes (ps_cav st) bs) = foldl push_byte st bs"
  using assms
proof (induction bs arbitrary: st)
  case Nil
  then show ?case by simp
next
  case (Cons b bs)
  have "foldl parse_char st (enc_bytes (ps_cav st) (b # bs)) =
        foldl parse_char (push_byte st b) (enc_bytes (ps_cav (push_byte st b)) bs)"
    using enc_byte_push [of st b] Cons.prems by (simp add: push_byte_def store_field_frame)
  also have "\<dots> = foldl push_byte (push_byte st b) bs"
    using Cons.prems by (intro Cons.IH) (simp_all add: push_byte_def)
  finally show ?case by simp
qed

lemma push_record:
  assumes "rec_start st" "length (r_v4 r) = 4" "length (r_v6 r) = 16"
  shows "foldl push_byte st (record_bytes r) =
           (emit_record (fill_state st r))\<lparr>ps_cv := 0, ps_n := 0\<rparr>"
proof -
  from list_of_length4 [OF assms(2)] obtain a0 a1 a2 a3 where 4: "r_v4 r = [a0, a1, a2, a3]" by blast
  from list_of_length16 [OF assms(3)] obtain c0 c1 c2 c3 c4 c5 c6 c7 c8 c9 c10 c11 c12 c13 c14 c15
    where 16: "r_v6 r = [c0, c1, c2, c3, c4, c5, c6, c7, c8, c9, c10, c11, c12, c13, c14, c15]" by blast
  show ?thesis
    using assms(1)
    by (simp add: record_bytes_def fill_state_def 4 16 push_byte_def store_field_def rec_start_def Let_def)
qed

lemma hextets_int: "hextets (map int xs) = map int (pairs256 xs)"
  by (induction xs rule: pairs256.induct) simp_all

lemma emit_fill:
  assumes "rec_start st" "wf_record r"
  shows "rec_start ((emit_record (fill_state st r))\<lparr>ps_cv := 0, ps_n := 0\<rparr>)"
    and "ps_sos (emit_record (fill_state st r)) = ps_sos st @ record_servers r"
proof -
  show "rec_start ((emit_record (fill_state st r))\<lparr>ps_cv := 0, ps_n := 0\<rparr>)"
    by (simp add: emit_record_def rec_start_def Let_def split: option.splits)
  have v6: "length (r_v6 r) = 16" using assms(2) by (simp add: wf_record_def)
  have nz: "(\<exists>q \<in> set (pairs256 (r_v6 r)). int q \<noteq> 0) \<longleftrightarrow> \<not> list_all (\<lambda>x. x = 0) (pairs256 (r_v6 r))"
    by (auto simp: list_all_iff)
  show "ps_sos (emit_record (fill_state st r)) = ps_sos st @ record_servers r"
    using v6 nz
    by (simp add: emit_record_def descriptor_def add_server_def fill_state_def record_servers_def
                  reduce256_def hextets_int o_def list_all_iff int_div_mod_256 Let_def split: option.splits)
qed

lemma wf_record_bytes: "wf_record r \<Longrightarrow> \<forall>b \<in> set (record_bytes r). b < 256"
  by (auto simp: wf_record_def record_bytes_def less_mult_imp_div_less)

lemma push_records:
  assumes "rec_start st" "list_all wf_record rs"
  shows "ps_sos (foldl push_byte st (concat (map record_bytes rs))) = ps_sos st @ concat (map record_servers rs)"
  using assms
proof (induction rs arbitrary: st)
  case Nil
  then show ?case by simp
next
  case (Cons r rs)
  let ?st' = "(emit_record (fill_state st r))\<lparr>ps_cv := 0, ps_n := 0\<rparr>"
  have wf: "wf_record r" using Cons.prems by simp
  then have st': "foldl push_byte st (record_bytes r) = ?st'"
    using Cons.prems(1) by (intro push_record) (simp_all add: wf_record_def)
  have "rec_start ?st'" using emit_fill(1) [OF Cons.prems(1) wf] .
  then have "ps_sos (foldl push_byte ?st' (concat (map record_bytes rs))) = ps_sos ?st' @ concat (map record_servers rs)"
    using Cons.prems(2) by (intro Cons.IH) simp_all
  with st' emit_fill(2) [OF Cons.prems(1) wf] show ?case by simp
qed

text \<open>
  C8 (round trip of the directory feed): a blob produced by the encoder from well-formed
  records decodes, through the whole \<^verbatim>\<open>parseServers\<close> loop, to exactly the active
  descriptors those records denote, in order.
\<close>

theorem parseServers_roundtrip:
  assumes "list_all wf_record rs"
  shows "parseServers (encode_blob rs) = filter active (concat (map record_servers rs))"
proof -
  have bytes: "\<forall>b \<in> set (concat (map record_bytes rs)). b < 256"
    using assms wf_record_bytes by (auto simp: list_all_iff)
  have "parse_loop (encode_blob rs) = foldl parse_char parse_init (enc_bytes (ps_cav parse_init) (concat (map record_bytes rs)))"
    by (simp add: parse_loop_def encode_blob_def parse_init_def)
  also have "\<dots> = foldl push_byte parse_init (concat (map record_bytes rs))"
    using bytes by (intro enc_bytes_push) (simp_all add: parse_init_def)
  finally have "ps_sos (parse_loop (encode_blob rs)) = concat (map record_servers rs)"
    using push_records [OF _ assms, of parse_init] by (simp add: rec_start_def parse_init_def)
  then show ?thesis by (simp add: parseServers_def encode_blob_def)
qed

theorem parseServers_roundtrip_witness:
  "list_all wf_record [example_record] \<and>
   parseServers (encode_blob [example_record]) =
     [\<lparr>ip = ''1.2.3.4'', po = 1234, ac = 5, sid = 0, active = True, wg = 10, clu = 2\<rparr>]"
proof -
  have wf: "list_all wf_record [example_record]"
    by (simp add: wf_record_def example_record_def)
  have "filter active (concat (map record_servers [example_record])) =
          [\<lparr>ip = ''1.2.3.4'', po = 1234, ac = 5, sid = 0, active = True, wg = 10, clu = 2\<rparr>]"
    by code_simp
  with wf parseServers_roundtrip [OF wf] show ?thesis by simp
qed

end
