(* ===== verification/ScoreTable.thy ===== *)
theory ScoreTable
  imports Prelude
begin

text \<open>
  Model of the module-level score tables of \<^verbatim>\<open>src/socketClient.js\<close> (lines 63--92):
  \<^verbatim>\<open>mscps\<close>, \<^verbatim>\<open>fmlts\<close> (decay factors) and \<^verbatim>\<open>fpsls\<close> (cumulative inverses), rebuilt by
  \<^verbatim>\<open>setMscps\<close> and read by the leaderboard score formula of line 362. Numbers are
  reals (the model does not round to IEEE doubles); an array cell is \<open>real option\<close>,
  \<open>None\<close> for \<^verbatim>\<open>undefined\<close> (the value read at \<^verbatim>\<open>fmlts[-1]\<close> when the table is
  rebuilt for 0 segments) and for the \<^verbatim>\<open>NaN\<close> it propagates.
\<close>

record score_tbl =
  mscps :: nat
  fmlts :: "real option list"
  fpsls :: "real option list"

definition tbl_init :: score_tbl where
  "tbl_init = \<lparr>mscps = 0, fmlts = [], fpsls = []\<rparr>"

definition js_add :: "real option \<Rightarrow> real option \<Rightarrow> real option" where
  "js_add x y = (case (x, y) of (Some a, Some b) \<Rightarrow> Some (a + b) | _ \<Rightarrow> None)"

definition js_recip :: "real option \<Rightarrow> real option" where
  "js_recip x = map_option (\<lambda>a. 1 / a) x"

text \<open>One iteration \<open>i\<close> of the \<^verbatim>\<open>for (i = 0; i <= mscps; i++)\<close> loop, lines 74--82.\<close>

definition mscps_step :: "nat \<Rightarrow> real option list \<times> real option list \<Rightarrow> nat \<Rightarrow> real option list \<times> real option list" where
  "mscps_step m acc i =
     (let fm = fst acc; fp = snd acc;
          fm' = fm @ [if m \<le> i then js_idx fm (int i - 1)
                      else Some ((1 - real i / real m) powr 2.25)];
          fp' = fp @ [if i = 0 then Some 0
                      else js_add (js_idx fp (int i - 1)) (js_recip (js_idx fm' (int i - 1)))]
      in (fm', fp'))"

text \<open>The rebuilt table: the loop, then 2048 copies of the last entry (lines 84--89).\<close>

definition build_table :: "nat \<Rightarrow> score_tbl" where
  "build_table m =
     (let (fm, fp) = foldl (mscps_step m) ([], []) [0..<Suc m]
      in \<lparr>mscps = m, fmlts = fm @ replicate 2048 (last fm), fpsls = fp @ replicate 2048 (last fp)\<rparr>)"

definition setMscps :: "score_tbl \<Rightarrow> nat \<Rightarrow> score_tbl" where
  "setMscps t n = (if n \<noteq> mscps t then build_table n else t)"

text \<open>\<^verbatim>\<open>Math.floor((fpsls[sct] + fam / fmlts[sct] - 1) * 15 - 5)\<close>; \<open>None\<close> is \<^verbatim>\<open>NaN\<close>.\<close>

definition entry_score :: "score_tbl \<Rightarrow> nat \<Rightarrow> real \<Rightarrow> int option" where
  "entry_score t sct fam =
     (case (js_idx (fpsls t) (int sct), js_idx (fmlts t) (int sct)) of
        (Some p, Some f) \<Rightarrow> Some \<lfloor>(p + fam / f - 1) * 15 - 5\<rfloor>
      | _ \<Rightarrow> None)"

text \<open>Reference definitions from the spec (section 4.4): the decay of segment \<open>i\<close>, with the
  last one repeated, and the cumulative inverse as a sum.\<close>

definition decay :: "nat \<Rightarrow> nat \<Rightarrow> real" where
  "decay m i = (1 - real (min i (m - 1)) / real m) powr 2.25"

definition cum_inv :: "nat \<Rightarrow> nat \<Rightarrow> real" where
  "cum_inv m i = (\<Sum>k<i. 1 / decay m k)"

definition tbl_wf :: "score_tbl \<Rightarrow> bool" where
  "tbl_wf t \<longleftrightarrow> t = tbl_init \<or> t = build_table (mscps t)"

section \<open>The rebuild loop computes the reference arrays\<close>

lemma decay_pos: "0 < m \<Longrightarrow> 0 < decay m i"
  by (simp add: decay_def)

lemma mscps_step_ref:
  assumes "0 < m" "k \<le> m"
  shows "mscps_step m (map (\<lambda>i. Some (decay m i)) [0..<k], map (\<lambda>i. Some (cum_inv m i)) [0..<k]) k =
           (map (\<lambda>i. Some (decay m i)) [0..<Suc k], map (\<lambda>i. Some (cum_inv m i)) [0..<Suc k])"
proof (cases k)
  case 0
  with assms(1) show ?thesis by (simp add: mscps_step_def cum_inv_def decay_def)
next
  case (Suc j)
  have fm: "(if m \<le> k then js_idx (map (\<lambda>i. Some (decay m i)) [0..<k]) (int k - 1)
             else Some ((1 - real k / real m) powr 2.25)) = Some (decay m k)"
    using assms Suc by (auto simp: js_idx_def decay_def min_def nth_append)
  have idx: "int k - 1 = int j" using Suc by simp
  have fp: "js_idx (map (\<lambda>i. Some (cum_inv m i)) [0..<k]) (int j) = Some (cum_inv m j)"
    using Suc by (simp add: js_idx_def nth_append)
  have fm': "js_idx (map (\<lambda>i. Some (decay m i)) [0..<k] @ [Some (decay m k)]) (int j) = Some (decay m j)"
    using Suc by (simp add: js_idx_def nth_append)
  have cum: "cum_inv m j + 1 / decay m j = cum_inv m k"
    using Suc by (simp add: cum_inv_def lessThan_Suc)
  show ?thesis
    unfolding mscps_step_def Let_def fst_conv snd_conv fm
    unfolding idx fp fm'
    using Suc cum by (simp add: js_add_def js_recip_def)
qed

lemma mscps_loop:
  assumes "0 < m" "k \<le> Suc m"
  shows "foldl (mscps_step m) ([], []) [0..<k] =
           (map (\<lambda>i. Some (decay m i)) [0..<k], map (\<lambda>i. Some (cum_inv m i)) [0..<k])"
  using assms(2)
proof (induction k)
  case 0
  then show ?case by simp
next
  case (Suc k)
  then have "foldl (mscps_step m) ([], []) [0..<Suc k] =
     mscps_step m (map (\<lambda>i. Some (decay m i)) [0..<k], map (\<lambda>i. Some (cum_inv m i)) [0..<k]) k"
    by simp
  with mscps_step_ref [OF assms(1)] Suc.prems show ?case by simp
qed

lemma last_map_upt_Suc: "last (map f [0..<Suc m]) = f m"
  by simp

lemma build_table_arrays:
  assumes "0 < m"
  shows "fmlts (build_table m) = map (\<lambda>i. Some (decay m i)) [0..<Suc m] @ replicate 2048 (Some (decay m m))"
    and "fpsls (build_table m) = map (\<lambda>i. Some (cum_inv m i)) [0..<Suc m] @ replicate 2048 (Some (cum_inv m m))"
  using mscps_loop [OF assms order_refl] by (simp_all add: build_table_def last_map_upt_Suc del: upt_Suc)

lemma decay_tail: "m \<le> i \<Longrightarrow> decay m i = decay m m"
  by (cases m) (simp_all add: decay_def min_def)

lemma js_idx_table:
  "js_idx (map f [0..<Suc m] @ replicate 2048 x) (int i) =
     (if i \<le> m + 2048 then (if i \<le> m then f i else x) else None)"
  by (auto simp: js_idx_def nth_append simp del: upt_Suc)

lemma build_table_lookup:
  assumes "0 < m"
  shows "js_idx (fmlts (build_table m)) (int i) = (if i \<le> m + 2048 then Some (decay m i) else None)"
    and "js_idx (fpsls (build_table m)) (int i) = (if i \<le> m + 2048 then Some (cum_inv m (min i m)) else None)"
proof -
  have "(if i \<le> m then Some (decay m i) else Some (decay m m)) = Some (decay m i)"
    using decay_tail [of m i] by (cases "i \<le> m") simp_all
  then show "js_idx (fmlts (build_table m)) (int i) = (if i \<le> m + 2048 then Some (decay m i) else None)"
    by (simp only: build_table_arrays [OF assms] js_idx_table)
  have "(if i \<le> m then Some (cum_inv m i) else Some (cum_inv m m)) = Some (cum_inv m (min i m))"
    by (cases "i \<le> m") (simp_all add: min_def)
  then show "js_idx (fpsls (build_table m)) (int i) = (if i \<le> m + 2048 then Some (cum_inv m (min i m)) else None)"
    by (simp only: build_table_arrays [OF assms] js_idx_table)
qed

lemma entry_score_build:
  assumes "0 < m"
  shows "entry_score (build_table m) sct fam =
           (if sct \<le> m + 2048 then Some \<lfloor>(cum_inv m (min sct m) + fam / decay m sct - 1) * 15 - 5\<rfloor> else None)"
  by (simp add: entry_score_def build_table_lookup [OF assms])

lemma map_upt_tail_const:
  assumes "\<And>i. k \<le> i \<Longrightarrow> f i = f k"
  shows "map f [k..<k + n] = replicate n (f k)"
proof (rule nth_equalityI)
  fix i
  assume "i < length (map f [k..<k + n])"
  then show "map f [k..<k + n] ! i = replicate n (f k) ! i" using assms [of "k + i"] by simp
qed simp

text \<open>
  C26 (the rebuilt tables are the spec's arrays): for a positive segment count the loop of
  \<^verbatim>\<open>setMscps\<close> followed by the 2048 copies of the last entry yields, at every index
  \<open>i \<le> m + 2048\<close>, the decay \<open>(1 - min i (m - 1) / m)\<^sup>2\<^sup>.\<^sup>2\<^sup>5\<close> in
  \<^verbatim>\<open>fmlts\<close> and the sum of the inverse decays below \<open>min i m\<close> in \<^verbatim>\<open>fpsls\<close>.
\<close>

theorem build_table_ref:
  assumes "0 < m"
  shows "fmlts (build_table m) = map (\<lambda>i. Some (decay m i)) [0..<m + 2049] \<and>
         fpsls (build_table m) = map (\<lambda>i. Some (cum_inv m (min i m))) [0..<m + 2049]"
proof -
  have e: "m + 2049 = Suc m + 2048" by simp
  have u: "[0..<m + 2049] = [0..<Suc m] @ [Suc m..<Suc m + 2048]"
    unfolding e by (rule upt_add_eq_append) simp
  have t: "Some (decay m i) = Some (decay m (Suc m))" if "Suc m \<le> i" for i
    using that decay_tail [of m i] decay_tail [of m "Suc m"] by simp
  have d: "map (\<lambda>i. Some (decay m i)) [Suc m..<Suc m + 2048] = replicate 2048 (Some (decay m m))"
    using map_upt_tail_const [of "Suc m" "\<lambda>i. Some (decay m i)" 2048, OF t] decay_tail [of m "Suc m"]
    by (simp del: upt_Suc)
  have c: "map (\<lambda>i. Some (cum_inv m (min i m))) [Suc m..<Suc m + 2048] = replicate 2048 (Some (cum_inv m m))"
    using map_upt_tail_const [of "Suc m" "\<lambda>i. Some (cum_inv m (min i m))" 2048] by (simp del: upt_Suc)
  have c0: "map (\<lambda>i. Some (cum_inv m (min i m))) [0..<Suc m] = map (\<lambda>i. Some (cum_inv m i)) [0..<Suc m]"
    by simp
  show ?thesis
    by (simp only: u map_append d c c0 build_table_arrays [OF assms] simp_thms)
qed

theorem build_table_ref_witness:
  "0 < (1::nat) \<and> fmlts (build_table 1) = map (\<lambda>i. Some (decay 1 i)) [0..<1 + 2049]"
proof -
  have h: "0 < (1::nat)" by simp
  show ?thesis using h build_table_ref [OF h] by blast
qed

text \<open>
  Scores grow with the mass: with a configured table, of two leaderboard entries on the
  same segment count the one with the larger fractional mass never gets the lower score.
\<close>

theorem entry_score_mono:
  assumes "0 < m" "fam1 \<le> fam2"
    and "entry_score (build_table m) sct fam1 = Some s1" "entry_score (build_table m) sct fam2 = Some s2"
  shows "s1 \<le> s2"
proof -
  define E where "E fam = (cum_inv m (min sct m) + fam / decay m sct - 1) * 15 - 5" for fam
  have e: "entry_score (build_table m) sct fam = (if sct \<le> m + 2048 then Some \<lfloor>E fam\<rfloor> else None)" for fam
    by (simp only: entry_score_build [OF assms(1)] E_def)
  have d: "0 < decay m sct" using assms(1) by (rule decay_pos)
  have "fam1 / decay m sct \<le> fam2 / decay m sct"
    using assms(2) d by (simp add: divide_right_mono)
  then have "E fam1 \<le> E fam2"
    unfolding E_def by (intro diff_right_mono mult_right_mono add_left_mono) simp_all
  moreover have "s1 = \<lfloor>E fam1\<rfloor>" "s2 = \<lfloor>E fam2\<rfloor>"
    using assms(3,4) by (simp_all add: e split: if_splits)
  ultimately show ?thesis by (simp add: floor_mono)
qed

theorem entry_score_mono_witness:
  "0 < (1::nat) \<and> (1::real) \<le> 2 \<and> entry_score (build_table 1) 0 1 = Some (-5) \<and>
   entry_score (build_table 1) 0 2 = Some 10 \<and> (-5::int) \<le> 10"
proof -
  have h: "0 < (1::nat)" "(1::real) \<le> 2" by simp_all
  have l: "entry_score (build_table 1) 0 fam = Some \<lfloor>(cum_inv 1 (min 0 1) + fam / decay 1 0 - 1) * 15 - 5\<rfloor>" for fam
    unfolding entry_score_def build_table_lookup [OF h(1)] by simp
  have cd: "cum_inv 1 (min 0 1) = 0" "decay 1 0 = 1" by (simp_all add: cum_inv_def decay_def)
  have e: "entry_score (build_table 1) 0 1 = Some (-5)" "entry_score (build_table 1) 0 2 = Some 10"
    by (simp_all only: l cd) simp_all
  show ?thesis using h e entry_score_mono [OF h e] by simp
qed


lemma mscps_build_table [simp]: "mscps (build_table m) = m"
  by (simp add: build_table_def split: prod.splits)

lemma setMscps_mscps [simp]: "mscps (setMscps t n) = n"
  by (simp add: setMscps_def)

lemma tbl_wf_init: "tbl_wf tbl_init"
  by (simp add: tbl_wf_def)

lemma tbl_wf_setMscps: "tbl_wf t \<Longrightarrow> tbl_wf (setMscps t n)"
  by (auto simp: tbl_wf_def setMscps_def)

lemma setMscps_idem: "setMscps (setMscps t n) n = setMscps t n"
  by (simp add: setMscps_def)

text \<open>
  Rebuilding is idempotent across an intermediate configuration: configuring \<open>n\<close>,
  then \<open>n'\<close>, then \<open>n\<close> again leaves the same tables as configuring \<open>n\<close> once,
  for every positive \<open>n\<close> and every table reachable from the initial one.
\<close>

theorem setMscps_aba:
  assumes "tbl_wf t" "0 < n" "n' \<noteq> n"
  shows "setMscps (setMscps (setMscps t n) n') n = setMscps t n"
proof (cases "mscps t = n")
  case True
  with assms(2) have "t \<noteq> tbl_init" by (auto simp: tbl_init_def)
  with assms(1) True have "t = build_table n" by (simp add: tbl_wf_def)
  with True assms(3) show ?thesis by (simp add: setMscps_def)
next
  case False
  with assms(3) show ?thesis by (simp add: setMscps_def)
qed

theorem setMscps_aba_witness:
  "tbl_wf tbl_init \<and> 0 < (1::nat) \<and> (2::nat) \<noteq> 1 \<and>
   setMscps (setMscps (setMscps tbl_init 1) 2) 1 = setMscps tbl_init 1"
proof -
  have h: "tbl_wf tbl_init" "0 < (1::nat)" "(2::nat) \<noteq> 1" by (simp_all add: tbl_wf_def)
  show ?thesis using h setMscps_aba [OF h] by blast
qed

lemma setMscps_aba_zero:
  "setMscps (setMscps (setMscps tbl_init 0) 5) 0 \<noteq> setMscps tbl_init 0"
proof -
  have "length (fmlts (setMscps (setMscps (setMscps tbl_init 0) 5) 0)) = 2049"
    by (simp add: setMscps_def tbl_init_def build_table_def mscps_step_def split: prod.splits)
  moreover have "fmlts (setMscps tbl_init 0) = []"
    by (simp add: setMscps_def tbl_init_def)
  ultimately show ?thesis by auto
qed

end
