(* ===== verification/Packets.thy ===== *)
theory Packets
  imports ScoreTable
begin

text \<open>
  Model of the packet layer of \<^verbatim>\<open>SocketClient\<close> (\<^verbatim>\<open>src/socketClient.js\<close>): the
  splitting of one transport frame into sub-packets (\<^verbatim>\<open>onMessage\<close>, lines 216--247,
  \<open>split_frame\<close>), the command byte of a packet (\<^verbatim>\<open>gotPacket\<close>, line 254), the arena
  configuration \<^verbatim>\<open>'a'\<close> (lines 263--278, \<open>got_arena\<close>) and the leaderboard \<^verbatim>\<open>'l'\<close>
  (lines 342--391, \<open>got_leaderboard\<close>). A frame is a list of bytes; a read past the end
  in a bitwise expression is 0 (\<open>byte_at\<close>).
\<close>

section \<open>Frames\<close>

text \<open>The \<^verbatim>\<open>while (m < l)\<close> loop of lines 229--242: a byte below 32 is the high byte of
  a two-byte length, any other byte is the length plus 32; \<^verbatim>\<open>subarray\<close> clamps at the end.\<close>

function frame_loop :: "byte list \<Rightarrow> nat \<Rightarrow> byte list list" where
  "frame_loop a m =
     (if m < length a then
        (let len = (if uint (a ! m) < 32 then nat (be16 a m) else unat (a ! m) - 32);
             m' = (if uint (a ! m) < 32 then m + 2 else m + 1)
         in take len (drop m' a) # frame_loop a (m' + len))
      else [])"
  by pat_completeness auto
termination
  by (relation "measure (\<lambda>(a, m). length a - m)") auto

declare frame_loop.simps [simp del]

text \<open>\<^verbatim>\<open>a[0] < 32\<close> is false for the empty frame (\<^verbatim>\<open>undefined < 32\<close>), which is then
  handed over whole, as one empty packet.\<close>

definition split_frame :: "byte list \<Rightarrow> byte list list" where
  "split_frame a = (if a \<noteq> [] \<and> uint (a ! 0) < 32 then frame_loop a 0 else [a])"

text \<open>The command of a packet, \<^verbatim>\<open>String.fromCharCode(a[0])\<close>; the empty packet's
  command is the character 0, which no branch of \<^verbatim>\<open>gotPacket\<close> handles.\<close>

definition cmd_of :: "byte list \<Rightarrow> nat" where
  "cmd_of a = (if a = [] then 0 else unat (a ! 0))"

text \<open>The arena configuration: only the segment count at offset 4 is used (line 269).\<close>

definition got_arena :: "byte list \<Rightarrow> score_tbl \<Rightarrow> score_tbl" where
  "got_arena a t = setMscps t (nat (be16 a 4))"

section \<open>Leaderboard\<close>

record lb_entry =
  rank :: nat
  name :: string
  score :: "int option"
  colorIndex :: nat

record lb_data =
  totalPlayers :: int
  lb_rank :: int
  totalScore :: "int option"
  leaderboard :: "lb_entry list"

text \<open>\<^verbatim>\<open>for (j = 0; j < nl && m < a.length; j++) name += String.fromCharCode(a[m++])\<close>:
  the bytes read and the cursor after them.\<close>

fun name_loop :: "byte list \<Rightarrow> nat \<Rightarrow> nat \<Rightarrow> byte list \<times> nat" where
  "name_loop a m 0 = ([], m)"
| "name_loop a m (Suc k) =
     (if m < length a then (let (n, m') = name_loop a (Suc m) k in (a ! m # n, m')) else ([], m))"

definition entry_name :: "byte list \<Rightarrow> string" where
  "entry_name bs = (let s = js_trim (map (\<lambda>b. char_of (unat b)) bs) in if s = [] then ''(unnamed)'' else s)"

text \<open>The entry loop of lines 352--379, \<open>pos\<close> the entries read so far.\<close>

function lb_loop :: "score_tbl \<Rightarrow> byte list \<Rightarrow> nat \<Rightarrow> nat \<Rightarrow> lb_entry list" where
  "lb_loop t a m pos =
     (if m < length a \<and> \<not> length a \<le> m + 7 then
        (let sct = nat (be16 a m);
             fam = real_of_int (be24 a (m + 2)) / 16777215;
             cv = unat (a ! (m + 5)) mod 9;
             nl = unat (a ! (m + 6));
             (nm, m') = name_loop a (m + 7) nl
         in \<lparr>rank = Suc pos, name = entry_name nm, score = entry_score t sct fam, colorIndex = cv\<rparr>
            # lb_loop t a m' (Suc pos))
      else [])"
  by pat_completeness auto
termination
proof (relation "measure (\<lambda>(t, a, m, pos). length a - m)", goal_cases)
  case 1
  show ?case by simp
next
  case (2 t a m pos x xa xb xc xd nm m')
  have prog: "j \<le> snd (name_loop b j k)" for b j k
    by (induction b j k rule: name_loop.induct) (auto split: prod.splits)
  from 2 have "name_loop a (m + 7) xc = (nm, m')" by simp
  with prog [of "m + 7" a xc] have "m + 7 \<le> m'" by simp
  moreover have "m < length a" using 2 by simp
  ultimately show ?case by simp
qed

declare lb_loop.simps [simp del]

definition sum_scores :: "lb_entry list \<Rightarrow> int option" where
  "sum_scores es = foldl (\<lambda>acc e. case (acc, score e) of (Some x, Some y) \<Rightarrow> Some (x + y) | _ \<Rightarrow> None) (Some 0) es"

definition got_leaderboard :: "score_tbl \<Rightarrow> byte list \<Rightarrow> lb_data" where
  "got_leaderboard t a =
     (let es = lb_loop t a 6 0
      in \<lparr>totalPlayers = be16 a 4, lb_rank = be16 a 2, totalScore = sum_scores es, leaderboard = es\<rparr>)"

section \<open>Encoders\<close>

text \<open>The inverse layouts the round-trip lemmas speak of: a frame of packets each with a
  two-byte length prefix, and a leaderboard packet of raw entries.\<close>

definition frame_packet :: "byte list \<Rightarrow> byte list" where
  "frame_packet p = word_of_nat (length p div 256) # word_of_nat (length p mod 256) # p"

definition frame_packets :: "byte list list \<Rightarrow> byte list" where
  "frame_packets ps = concat (map frame_packet ps)"

record raw_entry =
  re_sct :: nat
  re_fam :: nat
  re_color :: nat
  re_name :: "byte list"

definition raw_entry_ok :: "raw_entry \<Rightarrow> bool" where
  "raw_entry_ok e \<longleftrightarrow> re_sct e < 65536 \<and> re_fam e < 16777216 \<and> re_color e < 256
     \<and> re_name e \<noteq> [] \<and> length (re_name e) < 256"

definition encode_entry :: "raw_entry \<Rightarrow> byte list" where
  "encode_entry e =
     [word_of_nat (re_sct e div 256), word_of_nat (re_sct e mod 256),
      word_of_nat (re_fam e div 65536), word_of_nat (re_fam e div 256 mod 256), word_of_nat (re_fam e mod 256),
      word_of_nat (re_color e), word_of_nat (length (re_name e))] @ re_name e"

definition decoded_entry :: "score_tbl \<Rightarrow> nat \<Rightarrow> raw_entry \<Rightarrow> lb_entry" where
  "decoded_entry t r e = \<lparr>rank = r, name = entry_name (re_name e),
     score = entry_score t (re_sct e) (real (re_fam e) / 16777215), colorIndex = re_color e mod 9\<rparr>"

fun decode_all :: "score_tbl \<Rightarrow> nat \<Rightarrow> raw_entry list \<Rightarrow> lb_entry list" where
  "decode_all t pos [] = []"
| "decode_all t pos (e # es) = decoded_entry t (Suc pos) e # decode_all t (Suc pos) es"

section \<open>Properties\<close>

lemma uint_byte_of_nat [js_simps]: "n < 256 \<Longrightarrow> uint (word_of_nat n :: byte) = int n"
  by (simp add: uint_nat unat_of_nat)

lemma unat_byte_of_nat [js_simps]: "n < 256 \<Longrightarrow> unat (word_of_nat n :: byte) = n"
  by (simp add: unat_of_nat)

lemma frame_loop_end: "length a \<le> m \<Longrightarrow> frame_loop a m = []"
  by (simp add: frame_loop.simps)

lemma frame_loop_packet:
  assumes "length p < 8192"
  shows "frame_loop (pre @ frame_packet p @ rest) (length pre) = p # frame_loop (pre @ frame_packet p @ rest) (length pre + 2 + length p)"
proof -
  let ?a = "pre @ frame_packet p @ rest"
  have hi: "length p div 256 < 32" "length p div 256 < 256" and lo: "length p mod 256 < 256"
    using assms by simp_all
  have a0: "?a ! length pre = word_of_nat (length p div 256)"
    and a1: "?a ! Suc (length pre) = word_of_nat (length p mod 256)"
    by (simp_all add: frame_packet_def nth_append)
  have len: "length ?a = length pre + length p + 2 + length rest"
    by (simp add: frame_packet_def)
  have b0: "byte_at ?a (length pre) = int (length p div 256)"
    using hi len by (simp add: byte_at_def a0 js_simps)
  have b1: "byte_at ?a (Suc (length pre)) = int (length p mod 256)"
    using lo len by (simp add: byte_at_def a1 js_simps)
  have "be16 ?a (length pre) = int (length p)"
    by (simp add: be16_def b0 b1 int_div_mod_256)
  moreover have "uint (?a ! length pre) < 32" using hi by (simp add: a0 js_simps)
  moreover have "take (length p) (drop (length pre + 2) ?a) = p"
    by (simp add: frame_packet_def)
  ultimately show ?thesis
    by (subst frame_loop.simps) (simp add: frame_packet_def Let_def)
qed

lemma frame_loop_packets:
  assumes "\<forall>p \<in> set ps. length p < 8192"
  shows "frame_loop (pre @ frame_packets ps) (length pre) = ps"
  using assms
proof (induction ps arbitrary: pre)
  case Nil
  then show ?case by (simp add: frame_packets_def frame_loop_end)
next
  case (Cons p ps)
  have "frame_loop (pre @ frame_packets (p # ps)) (length pre) =
        p # frame_loop ((pre @ frame_packet p) @ frame_packets ps) (length (pre @ frame_packet p))"
    using frame_loop_packet [of p pre "frame_packets ps"] Cons.prems
    by (simp add: frame_packets_def frame_packet_def)
  also have "frame_loop ((pre @ frame_packet p) @ frame_packets ps) (length (pre @ frame_packet p)) = ps"
    using Cons.prems by (intro Cons.IH) simp
  finally show ?case .
qed

text \<open>
  C10 (frame round trip): packets laid out with two-byte length prefixes, each shorter than
  8192 bytes so that the prefix's first byte is below 32, are split back into exactly
  those packets by \<^verbatim>\<open>onMessage\<close>.
\<close>

theorem split_frame_roundtrip:
  assumes "ps \<noteq> []" "\<forall>p \<in> set ps. length p < 8192"
  shows "split_frame (frame_packets ps) = ps"
proof -
  obtain p qs where ps: "ps = p # qs" using assms(1) by (cases ps) auto
  have "length p < 32 * 256" using assms(2) ps by simp
  then have "length p div 256 < 32" by (rule less_mult_imp_div_less)
  then have first: "frame_packets ps \<noteq> [] \<and> uint (frame_packets ps ! 0) < 32"
    by (simp add: ps frame_packets_def frame_packet_def js_simps)
  have "frame_loop ([] @ frame_packets ps) (length ([] :: byte list)) = ps"
    using assms(2) by (rule frame_loop_packets)
  with first show ?thesis by (simp add: split_frame_def)
qed

theorem split_frame_roundtrip_witness:
  "[[1, 2], [3 :: byte]] \<noteq> [] \<and> list_all (\<lambda>p. length p < 8192) [[1, 2], [3 :: byte]] \<and>
   split_frame [0, 2, 1, 2, 0, 1, 3] = [[1, 2], [3]]"
proof -
  have h: "[[1, 2], [3 :: byte]] \<noteq> []" "\<forall>p \<in> set [[1, 2], [3 :: byte]]. length p < 8192" by simp_all
  have f: "frame_packets [[1, 2], [3 :: byte]] = [0, 2, 1, 2, 0, 1, 3]"
    by (simp add: frame_packets_def frame_packet_def)
  show ?thesis using h split_frame_roundtrip [OF h] by (simp only: f simp_thms list_all_iff)
qed

lemma entry_name_nonempty: "entry_name bs \<noteq> []"
  by (simp add: entry_name_def Let_def)

lemma name_loop_take: "m + k \<le> length a \<Longrightarrow> name_loop a m k = (take k (drop m a), m + k)"
proof (induction a m k rule: name_loop.induct)
  case (1 a m)
  then show ?case by simp
next
  case (2 a m k)
  then have "m < length a" by simp
  then have "drop m a = a ! m # drop (Suc m) a" by (rule Cons_nth_drop_Suc [symmetric])
  with 2 show ?case by simp
qed

lemma name_loop_progress: "m \<le> snd (name_loop a m k)"
  by (induction a m k rule: name_loop.induct) (auto split: prod.splits)

lemma lb_loop_Cons:
  assumes "m + 7 < length a" "name_loop a (m + 7) (unat (a ! (m + 6))) = (nm, m')"
  shows "lb_loop t a m pos =
    \<lparr>rank = Suc pos, name = entry_name nm, score = entry_score t (nat (be16 a m)) (real_of_int (be24 a (m + 2)) / 16777215),
      colorIndex = unat (a ! (m + 5)) mod 9\<rparr> # lb_loop t a m' (Suc pos)"
  using assms by (simp add: lb_loop.simps [of t a m pos] Let_def)

lemma lb_loop_Nil: "length a \<le> m + 7 \<Longrightarrow> lb_loop t a m pos = []"
  by (subst lb_loop.simps) simp

lemma lb_loop_wf:
  "(\<forall>i < length (lb_loop t a m pos). rank (lb_loop t a m pos ! i) = pos + Suc i) \<and>
   (\<forall>e \<in> set (lb_loop t a m pos). colorIndex e < 9 \<and> name e \<noteq> [])"
proof (induction t a m pos rule: lb_loop.induct)
  case (1 t a m pos)
  show ?case
  proof (cases "m + 7 < length a")
    case True
    obtain nm m' where nl: "name_loop a (m + 7) (unat (a ! (m + 6))) = (nm, m')"
      by (cases "name_loop a (m + 7) (unat (a ! (m + 6)))")
    have IH: "(\<forall>i < length (lb_loop t a m' (Suc pos)). rank (lb_loop t a m' (Suc pos) ! i) = Suc pos + Suc i) \<and>
       (\<forall>e \<in> set (lb_loop t a m' (Suc pos)). colorIndex e < 9 \<and> name e \<noteq> [])"
      using "1" [OF _ refl refl refl refl refl nl [symmetric]] True by simp
    show ?thesis
      using IH by (auto simp: lb_loop_Cons [OF True nl] entry_name_nonempty nth_Cons' not_less_eq)
  next
    case False
    then show ?thesis by (simp add: lb_loop_Nil)
  qed
qed

lemma lb_loop_size: "7 * length (lb_loop t a m pos) \<le> length a - m"
proof (induction t a m pos rule: lb_loop.induct)
  case (1 t a m pos)
  show ?case
  proof (cases "m + 7 < length a")
    case True
    obtain nm m' where nl: "name_loop a (m + 7) (unat (a ! (m + 6))) = (nm, m')"
      by (cases "name_loop a (m + 7) (unat (a ! (m + 6)))")
    have IH: "7 * length (lb_loop t a m' (Suc pos)) \<le> length a - m'"
      using "1" [OF _ refl refl refl refl refl nl [symmetric]] True by simp
    have "m + 7 \<le> m'" using name_loop_progress [of "m + 7" a "unat (a ! (m + 6))"] nl by simp
    with IH True show ?thesis by (simp add: lb_loop_Cons [OF True nl])
  next
    case False
    then show ?thesis by (simp add: lb_loop_Nil)
  qed
qed

lemma lb_loop_entry:
  assumes ok: "raw_entry_ok e"
  shows "lb_loop t (pre @ encode_entry e @ rest) (length pre) pos =
           decoded_entry t (Suc pos) e # lb_loop t (pre @ encode_entry e @ rest) (length pre + length (encode_entry e)) (Suc pos)"
proof -
  let ?a = "pre @ encode_entry e @ rest" and ?m = "length pre" and ?n = "re_name e"
  have len: "length (encode_entry e) = 7 + length ?n" by (simp add: encode_entry_def)
  have bytes: "re_sct e div 256 < 256" "re_sct e mod 256 < 256" "re_fam e div 65536 < 256"
      "re_fam e div 256 mod 256 < 256" "re_fam e mod 256 < 256" "re_color e < 256" "length ?n < 256"
    using ok by (simp_all add: raw_entry_ok_def less_mult_imp_div_less)
  have nz: "?n \<noteq> []" using ok by (simp add: raw_entry_ok_def)
  then have room: "?m + 7 < length ?a" using len by simp
  have d: "drop ?m ?a = encode_entry e @ rest" by simp
  have "be16 ?a ?m = int (re_sct e)"
    unfolding be16_drop [of ?a] d using bytes by (simp add: encode_entry_def js_simps)
  moreover have "be24 ?a (?m + 2) = int (re_fam e)"
    unfolding be24_drop [of ?a] using bytes int_div_mod_65536 [of "re_fam e"]
    by (simp add: encode_entry_def js_simps add.assoc)
  moreover have "unat (?a ! (?m + 5)) = re_color e" "unat (?a ! (?m + 6)) = length ?n"
    using nth_append_middle [of 5 "encode_entry e" pre rest] nth_append_middle [of 6 "encode_entry e" pre rest]
      bytes len by (simp_all add: encode_entry_def js_simps)
  moreover have "name_loop ?a (?m + 7) (length ?n) = (?n, ?m + length (encode_entry e))"
    using len by (simp add: name_loop_take encode_entry_def)
  ultimately show ?thesis
    using room by (simp add: lb_loop_Cons decoded_entry_def)
qed

lemma lb_loop_entries:
  "list_all raw_entry_ok es \<Longrightarrow>
     lb_loop t (pre @ concat (map encode_entry es)) (length pre) pos = decode_all t pos es"
proof (induction es arbitrary: pre pos)
  case Nil
  then show ?case by (simp add: lb_loop_Nil)
next
  case (Cons e es)
  have "lb_loop t (pre @ concat (map encode_entry (e # es))) (length pre) pos =
        decoded_entry t (Suc pos) e #
        lb_loop t ((pre @ encode_entry e) @ concat (map encode_entry es)) (length (pre @ encode_entry e)) (Suc pos)"
    using lb_loop_entry [of e t pre "concat (map encode_entry es)" pos] Cons.prems by simp
  moreover have "lb_loop t ((pre @ encode_entry e) @ concat (map encode_entry es)) (length (pre @ encode_entry e)) (Suc pos)
                   = decode_all t (Suc pos) es"
    using Cons.prems by (intro Cons.IH) simp
  ultimately show ?case by simp
qed

text \<open>
  C9 (leaderboard round trip): a leaderboard packet whose entries have non-empty names
  decodes to exactly those entries, numbered 1, 2, ... by position, each scored from the
  current table, its colour reduced modulo 9 and its name trimmed.
\<close>

theorem got_leaderboard_roundtrip:
  assumes "length hdr = 6" "list_all raw_entry_ok es"
  shows "leaderboard (got_leaderboard t (hdr @ concat (map encode_entry es))) = decode_all t 0 es"
  using lb_loop_entries [OF assms(2), of t hdr 0] assms(1) by (simp add: got_leaderboard_def Let_def)

theorem got_leaderboard_roundtrip_witness:
  "length [108, 0, 0, 0, 0, 0 :: byte] = 6 \<and>
   list_all raw_entry_ok [\<lparr>re_sct = 0, re_fam = 0, re_color = 12, re_name = [65]\<rparr>] \<and>
   leaderboard (got_leaderboard tbl_init ([108, 0, 0, 0, 0, 0] @
     concat (map encode_entry [\<lparr>re_sct = 0, re_fam = 0, re_color = 12, re_name = [65]\<rparr>]))) =
   [\<lparr>rank = 1, name = entry_name [65], score = None, colorIndex = 3\<rparr>]"
proof -
  have h: "length [108, 0, 0, 0, 0, 0 :: byte] = 6"
    "list_all raw_entry_ok [\<lparr>re_sct = 0, re_fam = 0, re_color = 12, re_name = [65]\<rparr>]"
    by (simp_all add: raw_entry_ok_def)
  show ?thesis
    using h got_leaderboard_roundtrip [OF h, of tbl_init]
    by (simp add: decoded_entry_def entry_score_def tbl_init_def js_idx_def)
qed

lemma sum_scores_foldl:
  "foldl (\<lambda>acc e. case (acc, score e) of (Some x, Some y) \<Rightarrow> Some (x + y) | _ \<Rightarrow> None) acc es =
     (case acc of None \<Rightarrow> None
      | Some x \<Rightarrow> if list_all (\<lambda>e. score e \<noteq> None) es then Some (x + sum_list (map (the \<circ> score) es)) else None)"
  by (induction es arbitrary: acc) (auto split: option.splits)

lemma sum_scores_eq:
  "sum_scores es = (if list_all (\<lambda>e. score e \<noteq> None) es then Some (sum_list (map (the \<circ> score) es)) else None)"
  unfolding sum_scores_def sum_scores_foldl by simp

text \<open>
  The spec's frame layout is misread: a frame laid out as the spec describes, a marker
  byte below 32 followed by a two-byte length 2 and the payload \<open>65 66\<close>, is split by
  \<^verbatim>\<open>onMessage\<close> into an empty packet and the packet \<open>66\<close>: the code reads the
  marker byte itself as the high byte of the length and advances the cursor by 2.
\<close>

theorem split_frame_spec_layout:
  "split_frame [0, 0, 2, 65, 66] = [[], [66]] \<and> split_frame [0, 0, 2, 65, 66] \<noteq> [[65, 66]]"
  by (simp add: split_frame_def frame_loop.simps be16_def byte_at_def)


end
