(* ===== verification/Minimap.thy ===== *)
theory Minimap
  imports Prelude
begin

unbundle bit_operations_syntax

text \<open>
  Model of the minimap decoder of \<^verbatim>\<open>gotPacket\<close>, command \<^verbatim>\<open>'M'\<close>
  (\<^verbatim>\<open>src/socketClient.js\<close>, lines 289--340). The canvas is abstracted to the list of
  \<^verbatim>\<open>fillRect(xx, yy, 1, 1)\<close> calls, in order; the background of
  \<^verbatim>\<open>drawDynamicMinimapBackground\<close> depends on the size only and the PNG encoding is not
  modelled. The cursor runs from the bottom-right cell leftwards and upwards.
\<close>

type_synonym pixel = "int \<times> int"

record minimap =
  mm_size :: int
  mm_pixels :: "pixel list"

text \<open>The \<^verbatim>\<open>xx--\<close> step of both inner loops, with the wrap to the row above; \<open>None\<close>
  is the \<^verbatim>\<open>break\<close> taken when the row above does not exist.\<close>

definition mm_advance :: "int \<Rightarrow> int \<Rightarrow> int \<Rightarrow> (int \<times> int) \<times> bool" where
  "mm_advance sz xx yy =
     (if xx - 1 < 0 then (if yy - 1 < 0 then ((sz - 1, yy - 1), True) else ((sz - 1, yy - 1), False))
      else ((xx - 1, yy), False))"

text \<open>A skip run, \<^verbatim>\<open>for (i = 0; i < k; i++) { xx--; ... }\<close>, lines 318--325.\<close>

fun mm_skip :: "int \<Rightarrow> nat \<Rightarrow> int \<Rightarrow> int \<Rightarrow> int \<times> int" where
  "mm_skip sz 0 xx yy = (xx, yy)"
| "mm_skip sz (Suc k) xx yy =
     (let ((xx', yy'), brk) = mm_advance sz xx yy in if brk then (xx', yy') else mm_skip sz k xx' yy')"

text \<open>A bit mask, \<^verbatim>\<open>for (i = 0; i < 7; i++) { if (k & BIT_MASKS[i]) fillRect(...); xx--; ... }\<close>,
  lines 327--335, over the masks still to test.\<close>

fun mm_bits :: "int \<Rightarrow> nat \<Rightarrow> nat list \<Rightarrow> int \<Rightarrow> int \<Rightarrow> pixel list \<Rightarrow> int \<times> int \<times> pixel list" where
  "mm_bits sz k [] xx yy px = (xx, yy, px)"
| "mm_bits sz k (b # bs) xx yy px =
     (let px' = (if 0 < k AND b then px @ [(xx, yy)] else px);
          ((xx', yy'), brk) = mm_advance sz xx yy
      in if brk then (xx', yy', px') else mm_bits sz k bs xx' yy' px')"

definition bit_masks :: "nat list" where
  "bit_masks = [64, 32, 16, 8, 4, 2, 1]"

text \<open>The outer \<^verbatim>\<open>while (m < alen)\<close> loop, lines 309--337.\<close>

function mm_loop :: "int \<Rightarrow> byte list \<Rightarrow> nat \<Rightarrow> int \<Rightarrow> int \<Rightarrow> pixel list \<Rightarrow> pixel list" where
  "mm_loop sz a m xx yy px =
     (if m < length a \<and> 0 \<le> yy then
        (let k = unat (a ! m) in
         if 128 \<le> k then
           (if k = 255 then
              (if length a \<le> Suc m then px
               else (let (xx', yy') = mm_skip sz (126 * unat (a ! Suc m)) xx yy
                     in mm_loop sz a (Suc (Suc m)) xx' yy' px))
            else (let (xx', yy') = mm_skip sz (k - 128) xx yy in mm_loop sz a (Suc m) xx' yy' px))
         else (let (xx', yy', px') = mm_bits sz k bit_masks xx yy px in mm_loop sz a (Suc m) xx' yy' px'))
      else px)"
  by pat_completeness auto
termination
  by (relation "measure (\<lambda>(sz, a, m, xx, yy, px). length a - m)") auto

declare mm_loop.simps [simp del]

text \<open>The whole \<^verbatim>\<open>'M'\<close> branch: the size at offset 1, clamped to 512, the stream from
  offset 3.\<close>

definition got_minimap :: "byte list \<Rightarrow> minimap" where
  "got_minimap a =
     (let sz0 = be16 a 1; sz = (if 512 < sz0 then 512 else sz0)
      in \<lparr>mm_size = sz, mm_pixels = mm_loop sz a 3 (sz - 1) (sz - 1) []\<rparr>)"

text \<open>The cursor position as a cell number, row-major: it strictly decreases.\<close>

definition cell :: "int \<Rightarrow> pixel \<Rightarrow> int" where
  "cell sz p = snd p * sz + fst p"

text \<open>The invariant of the decoder: the cursor column is in range, the row is at most the
  last one, the pixels drawn are distinct cells of the grid, all after the cursor.\<close>

definition mm_inv :: "int \<Rightarrow> int \<Rightarrow> int \<Rightarrow> pixel list \<Rightarrow> bool" where
  "mm_inv sz xx yy px \<longleftrightarrow> 0 \<le> xx \<and> xx < sz \<and> yy < sz \<and> distinct px \<and>
     (\<forall>p \<in> set px. 0 \<le> fst p \<and> fst p < sz \<and> 0 \<le> snd p \<and> snd p < sz \<and> cell sz (xx, yy) < cell sz p)"

definition grid_ok :: "int \<Rightarrow> pixel list \<Rightarrow> bool" where
  "grid_ok sz px \<longleftrightarrow> distinct px \<and> (\<forall>p \<in> set px. 0 \<le> fst p \<and> fst p < sz \<and> 0 \<le> snd p \<and> snd p < sz)"

section \<open>Properties\<close>

lemma mm_advance_cell:
  assumes "0 \<le> xx" "xx < sz" "mm_advance sz xx yy = ((xx', yy'), brk)"
  shows "0 \<le> xx' \<and> xx' < sz \<and> yy' \<le> yy \<and> cell sz (xx', yy') = cell sz (xx, yy) - 1 \<and>
         (0 \<le> yy \<longrightarrow> brk = (yy' < 0))"
  using assms by (auto simp: mm_advance_def cell_def algebra_simps split: if_splits)

lemma mm_inv_grid_ok: "mm_inv sz xx yy px \<Longrightarrow> grid_ok sz px"
  by (simp add: mm_inv_def grid_ok_def)

lemma mm_skip_inv:
  "mm_inv sz xx yy px \<Longrightarrow> mm_skip sz k xx yy = (xx', yy') \<Longrightarrow> mm_inv sz xx' yy' px"
proof (induction k arbitrary: xx yy)
  case 0
  then show ?case by simp
next
  case (Suc k)
  obtain x1 y1 brk where adv: "mm_advance sz xx yy = ((x1, y1), brk)"
    by (metis prod.exhaust)
  have step: "0 \<le> x1 \<and> x1 < sz \<and> y1 \<le> yy \<and> cell sz (x1, y1) = cell sz (xx, yy) - 1"
    using mm_advance_cell [OF _ _ adv] "Suc.prems"(1) by (simp add: mm_inv_def)
  then have inv1: "mm_inv sz x1 y1 px"
    using "Suc.prems"(1) by (fastforce simp: mm_inv_def)
  show ?case
  proof (cases brk)
    case True
    with "Suc.prems"(2) adv inv1 show ?thesis by simp
  next
    case False
    with "Suc.prems"(2) adv have "mm_skip sz k x1 y1 = (xx', yy')" by simp
    with inv1 show ?thesis by (rule Suc.IH)
  qed
qed

lemma mm_bits_inv:
  "mm_inv sz xx yy px \<Longrightarrow> 0 \<le> yy \<Longrightarrow> mm_bits sz k bs xx yy px = (xx', yy', px') \<Longrightarrow>
     mm_inv sz xx' yy' px'"
proof (induction bs arbitrary: xx yy px)
  case Nil
  then show ?case by simp
next
  case (Cons b bs)
  define px1 where "px1 = (if 0 < k AND b then px @ [(xx, yy)] else px)"
  obtain x1 y1 brk where adv: "mm_advance sz xx yy = ((x1, y1), brk)"
    by (metis prod.exhaust)
  have step: "0 \<le> x1 \<and> x1 < sz \<and> y1 \<le> yy \<and> cell sz (x1, y1) = cell sz (xx, yy) - 1 \<and> brk = (y1 < 0)"
    using mm_advance_cell [OF _ _ adv] Cons.prems(1,2) by (simp add: mm_inv_def)
  have fresh: "(xx, yy) \<notin> set px"
    using Cons.prems(1) by (auto simp: mm_inv_def)
  have inv1: "mm_inv sz x1 y1 px1"
    using Cons.prems(1,2) step fresh by (fastforce simp: mm_inv_def px1_def)
  show ?case
  proof (cases brk)
    case True
    with Cons.prems(3) adv inv1 show ?thesis by (simp add: px1_def [symmetric])
  next
    case False
    with Cons.prems(3) adv have "mm_bits sz k bs x1 y1 px1 = (xx', yy', px')"
      by (simp add: px1_def [symmetric])
    moreover have "0 \<le> y1" using False step by simp
    ultimately show ?thesis using inv1 by (intro Cons.IH)
  qed
qed

lemma mm_loop_grid:
  "mm_inv sz xx yy px \<Longrightarrow> grid_ok sz (mm_loop sz a m xx yy px)"
proof (induction "length a - m" arbitrary: m xx yy px rule: less_induct)
  case less
  show ?case
  proof (cases "m < length a \<and> 0 \<le> yy")
    case False
    then have "mm_loop sz a m xx yy px = px"
      by (simp only: mm_loop.simps [of sz a m] if_False)
    then show ?thesis
      using less.prems by (simp add: mm_inv_grid_ok)
  next
    case True
    let ?k = "unat (a ! m)"
    have IH: "\<And>m' x' y' p'. m < m' \<Longrightarrow> mm_inv sz x' y' p' \<Longrightarrow> grid_ok sz (mm_loop sz a m' x' y' p')"
      using True by (intro less.hyps) auto
    show ?thesis
    proof (cases "128 \<le> ?k")
      case big: True
      show ?thesis
      proof (cases "?k = 255 \<and> length a \<le> Suc m")
        case True
        then show ?thesis
          using less.prems big \<open>m < length a \<and> 0 \<le> yy\<close>
          by (simp add: mm_loop.simps [of sz a m] mm_inv_grid_ok)
      next
        case False
        obtain x1 y1 where sk: "mm_skip sz (if ?k = 255 then 126 * unat (a ! Suc m) else ?k - 128) xx yy = (x1, y1)"
          by (metis prod.exhaust)
        have inv1: "mm_inv sz x1 y1 px" using mm_skip_inv [OF less.prems sk] .
        show ?thesis
          using IH [OF _ inv1, of "Suc (Suc m)"] IH [OF _ inv1, of "Suc m"] big False sk \<open>m < length a \<and> 0 \<le> yy\<close>
          by (simp add: mm_loop.simps [of sz a m] split: if_splits)
      qed
    next
      case small: False
      obtain x1 y1 p1 where bt: "mm_bits sz ?k bit_masks xx yy px = (x1, y1, p1)"
        by (metis prod.exhaust)
      have inv1: "mm_inv sz x1 y1 p1"
        using mm_bits_inv [OF less.prems _ bt] True by simp
      show ?thesis
        using IH [OF _ inv1, of "Suc m"] small bt True
        by (simp add: mm_loop.simps [of sz a m])
    qed
  qed
qed

lemma grid_ok_length:
  assumes "grid_ok sz px"
  shows "int (length px) \<le> sz * sz"
proof -
  have sub: "set px \<subseteq> {0..<sz} \<times> {0..<sz}"
    using assms by (auto simp: grid_ok_def)
  have "length px = card (set px)"
    using assms by (simp add: grid_ok_def distinct_card)
  also have "\<dots> \<le> card ({0..<sz} \<times> {0..<sz})"
    using sub by (intro card_mono) simp_all
  also have "\<dots> = nat sz * nat sz"
    by (simp add: card_cartesian_product)
  finally have "int (length px) \<le> int (nat sz * nat sz)" by linarith
  also have "\<dots> \<le> sz * sz"
    by (cases "0 \<le> sz") (simp_all add: not_le)
  finally show ?thesis .
qed

lemma mm_loop_no_row: "yy < 0 \<Longrightarrow> mm_loop sz a m xx yy px = px"
  by (simp add: mm_loop.simps [of sz a m])

text \<open>
  C25 (minimap bounds): whatever the packet, the decoder only draws cells of the
  \<open>size \<times> size\<close> grid, never the same cell twice, hence at most \<open>size\<^sup>2\<close> of them; the
  size itself is at most 512.
\<close>

theorem got_minimap_bounded:
  "grid_ok (mm_size (got_minimap a)) (mm_pixels (got_minimap a)) \<and>
   int (length (mm_pixels (got_minimap a))) \<le> mm_size (got_minimap a) * mm_size (got_minimap a) \<and>
   0 \<le> mm_size (got_minimap a) \<and> mm_size (got_minimap a) \<le> 512"
proof -
  define sz where "sz = (if 512 < be16 a 1 then 512 else be16 a 1)"
  have m: "got_minimap a = \<lparr>mm_size = sz, mm_pixels = mm_loop sz a 3 (sz - 1) (sz - 1) []\<rparr>"
    by (simp add: got_minimap_def sz_def Let_def)
  have sz: "0 \<le> sz" "sz \<le> 512" using be16_bounds [of a 1] by (auto simp: sz_def)
  have g: "grid_ok sz (mm_loop sz a 3 (sz - 1) (sz - 1) [])"
  proof (cases "sz = 0")
    case True
    then show ?thesis by (simp add: mm_loop_no_row grid_ok_def)
  next
    case False
    with sz have "mm_inv sz (sz - 1) (sz - 1) []" by (simp add: mm_inv_def)
    then show ?thesis by (rule mm_loop_grid)
  qed
  show ?thesis using g grid_ok_length [OF g] sz by (simp add: m)
qed

lemma mm_loop_skips:
  "(\<forall>i. m \<le> i \<and> i < length a \<longrightarrow> 128 \<le> unat (a ! i)) \<Longrightarrow> mm_loop sz a m xx yy px = px"
proof (induction "length a - m" arbitrary: m xx yy rule: less_induct)
  case less
  show ?case
  proof (cases "m < length a \<and> 0 \<le> yy")
    case False
    then show ?thesis by (simp only: mm_loop.simps [of sz a m] if_False)
  next
    case True
    have big: "128 \<le> unat (a ! m)" using less.prems True by simp
    have IH: "\<And>m' x' y'. m < m' \<Longrightarrow> mm_loop sz a m' x' y' px = px"
      using True less.prems by (intro less.hyps) auto
    show ?thesis
      using True big IH [of "Suc m"] IH [of "Suc (Suc m)"]
      by (simp add: mm_loop.simps [of sz a m] Let_def split: prod.splits)
  qed
qed

text \<open>
  Skip runs draw nothing: a stream of skip-run bytes only (every byte after the
  size at least 128) leaves the minimap with no foreground pixel.
\<close>

theorem got_minimap_skips_only:
  assumes "\<forall>b \<in> set (drop 3 a). 128 \<le> unat b"
  shows "mm_pixels (got_minimap a) = []"
proof -
  have "128 \<le> unat (a ! i)" if "3 \<le> i" "i < length a" for i
  proof -
    have "a ! i = drop 3 a ! (i - 3)" using that by simp
    moreover have "i - 3 < length (drop 3 a)" using that by simp
    ultimately have "a ! i \<in> set (drop 3 a)" by (simp only: nth_mem)
    with assms show ?thesis by blast
  qed
  then show ?thesis by (simp add: got_minimap_def Let_def mm_loop_skips del: nth_drop)
qed

theorem got_minimap_skips_only_witness:
  "list_all (\<lambda>b. 128 \<le> unat b) (drop 3 [77, 0, 2, 132 :: byte]) \<and> mm_pixels (got_minimap [77, 0, 2, 132]) = []"
proof -
  have h: "\<forall>b \<in> set (drop 3 [77, 0, 2, 132 :: byte]). 128 \<le> unat b" by simp
  show ?thesis using h got_minimap_skips_only [OF h] by simp
qed

end
