(* ===== verification/Handshake.thy ===== *)
theory Handshake
  imports Prelude
begin

text \<open>
  Model of the handshake code of \<^verbatim>\<open>SocketClient\<close> (\<^verbatim>\<open>src/socketClient.js\<close>):
  \<^verbatim>\<open>onOpen\<close> (lines 133--143), \<^verbatim>\<open>gotServerVersion\<close> (407--418), \<^verbatim>\<open>isValidVersion\<close>
  (420--453) and \<^verbatim>\<open>clientInit\<close> (495--526). Strings are lists of UTF-16 code units
  (\<open>nat list\<close>); \<^verbatim>\<open>this.idba\<close> is a byte list.

  \<^verbatim>\<open>extractStringAndNumber\<close> (lines 455--493) matches three regular expressions and
  unescapes through \<^verbatim>\<open>JSON.parse\<close>; it is modelled in the theory \<open>Extract\<close>,
  which builds on this one. Every definition here that needs it takes it as a parameter of
  type \<open>extractor\<close> (the recovered string, or
  \<open>None\<close> for \<^verbatim>\<open>null\<close>; the loop bound, or \<open>None\<close> for \<^verbatim>\<open>null\<close>), so the
  lemmas hold for whatever the extractor returns.
\<close>

type_synonym extractor = "nat list \<Rightarrow> nat list option \<times> nat option"

datatype js_exn = TypeError

text \<open>Frames sent by \<^verbatim>\<open>onOpen\<close>: the 1-byte marker and \<^verbatim>\<open>new Uint8Array(len + 1)\<close>
  holding \<^verbatim>\<open>"c"\<close> and a trailing zero.\<close>

definition open_frames :: "byte list list" where
  "open_frames = [[1], [99, 0]]"

text \<open>The first loop of \<^verbatim>\<open>isValidVersion\<close> (lines 421--430): one code unit, with the
  accumulator \<open>d\<close>, the rolling offset \<open>e\<close> and the digit parity \<open>f\<close>.\<close>

record dec_st =
  dec_out :: "nat list"
  dec_d :: int
  dec_e :: int
  dec_f :: nat

definition dec_init :: dec_st where
  "dec_init = \<lparr>dec_out = [], dec_d = 0, dec_e = 23, dec_f = 0\<rparr>"

definition dec_char :: "dec_st \<Rightarrow> nat \<Rightarrow> dec_st" where
  "dec_char st c =
     (let b0 = (if c \<le> 96 then int c + 32 else int c);
          r = js_rem (b0 - 97 - dec_e st) 26;
          b = (if r < 0 then r + 26 else r);
          d = dec_d st * 16 + b;
          st1 = st\<lparr>dec_d := d, dec_e := dec_e st + 17\<rparr>
      in if dec_f st = 1 then st1\<lparr>dec_out := dec_out st @ [nat d], dec_d := 0, dec_f := 0\<rparr>
         else st1\<lparr>dec_f := Suc (dec_f st)\<rparr>)"

definition decode_challenge :: "nat list \<Rightarrow> nat list" where
  "decode_challenge c = dec_out (foldl dec_char dec_init c)"

text \<open>The copy loop of lines 434--436: \<^verbatim>\<open>this.idba[i] = str.charCodeAt(i)\<close> for
  \<open>i < count\<close>. On \<^verbatim>\<open>str = null\<close> the first iteration throws a \<^verbatim>\<open>TypeError\<close>;
  \<^verbatim>\<open>charCodeAt\<close> past the end is \<^verbatim>\<open>NaN\<close>, stored as 0; a store past the end of the
  typed array is ignored.\<close>

definition copy_secret :: "byte list \<Rightarrow> nat list option \<Rightarrow> nat option \<Rightarrow> js_exn + byte list" where
  "copy_secret idba str count =
     (let n = (case count of None \<Rightarrow> 0 | Some k \<Rightarrow> k) in
      if n = 0 then Inr idba
      else (case str of None \<Rightarrow> Inl TypeError
            | Some s \<Rightarrow> Inr (map (\<lambda>i. if i < n then (if i < length s then to_uint8 (int (s ! i)) else 0)
                                     else idba ! i) [0..<length idba])))"

text \<open>The transformation loop of lines 438--448, with the seed \<open>b\<close> and the index \<open>c\<close>.\<close>

fun transform_loop :: "int \<Rightarrow> nat \<Rightarrow> byte list \<Rightarrow> byte list" where
  "transform_loop b c [] = []"
| "transform_loop b c (x # xs) =
     (let a0 = uint x; upper = 97 \<le> a0; d = (if upper then 97 else 65 :: int);
          a = (if upper then a0 - 32 else a0) - 65;
          b1 = (if c = 0 then 3 + a else b);
          e = js_rem (a + b1) 26
      in to_uint8 (e + d) # transform_loop (b1 + 2 + a) (Suc c) xs)"

definition transform_id :: "byte list \<Rightarrow> byte list" where
  "transform_id idba = transform_loop 0 0 idba"

text \<open>The JavaScript value of \<open>c\<close> at line 450: the parameter was the challenge string,
  but \<^verbatim>\<open>var c\<close> in the loop of line 439 rebinds the same variable, which ends as the
  number \<^verbatim>\<open>this.idba.length\<close>. \<^verbatim>\<open>c.length\<close> of a number is \<^verbatim>\<open>undefined\<close>, and
  \<^verbatim>\<open>a < undefined\<close> is false.\<close>

datatype jsval = JStr "nat list" | JNum int

definition js_length :: "jsval \<Rightarrow> nat option" where
  "js_length v = (case v of JStr s \<Rightarrow> Some (length s) | JNum _ \<Rightarrow> None)"

definition range_check :: "jsval \<Rightarrow> bool" where
  "range_check v =
     (case (js_length v, v) of
        (Some n, JStr s) \<Rightarrow> (\<forall>i < n. 65 \<le> s ! i \<and> s ! i \<le> 122)
      | _ \<Rightarrow> True)"

text \<open>\<^verbatim>\<open>isValidVersion(c)\<close>: the verdict and the updated \<^verbatim>\<open>this.idba\<close>, or the
  exception thrown by the copy loop.\<close>

definition isValidVersion :: "extractor \<Rightarrow> byte list \<Rightarrow> nat list \<Rightarrow> js_exn + bool \<times> byte list" where
  "isValidVersion ex idba c =
     (case ex (decode_challenge c) of (str, count) \<Rightarrow>
      (case copy_secret idba str count of
         Inl e \<Rightarrow> Inl e
       | Inr idba1 \<Rightarrow> Inr (range_check (JNum (int (length idba1))), transform_id idba1)))"

definition client_version :: nat where
  "client_version = 291"

definition cpw :: "byte list" where
  "cpw = [54, 206, 204, 169, 97, 178, 74, 136, 124, 117, 14, 210, 106, 236, 8, 208, 136, 213, 140, 111]"

text \<open>\<^verbatim>\<open>clientInit\<close>: with \<^verbatim>\<open>s = ""\<close> and \<^verbatim>\<open>ca = []\<close> the frame is 28 bytes.\<close>

definition clientInit :: "nat \<Rightarrow> byte list" where
  "clientInit cv =
     [115, 30, word_of_nat (client_version div 256 mod 256), word_of_nat (client_version mod 256)] @ cpw @
     [word_of_nat cv, 0, 0, 255]"

text \<open>\<^verbatim>\<open>gotServerVersion\<close>: the frames it sends (through \<^verbatim>\<open>send\<close>) and the new
  \<^verbatim>\<open>idba\<close>, or the exception. \<open>rid\<close> is the random identifier of lines 408--410 and
  \<open>cv\<close> the random flavour of line 496.\<close>

definition gotServerVersion ::
  "extractor \<Rightarrow> byte list \<Rightarrow> nat \<Rightarrow> nat list \<Rightarrow> js_exn + byte list list \<times> byte list" where
  "gotServerVersion ex rid cv s =
     (case isValidVersion ex rid s of
        Inl e \<Rightarrow> Inl e
      | Inr (ok, idba) \<Rightarrow> Inr (if ok then [idba, clientInit cv] else [], idba))"

text \<open>Reference definitions (spec section 4.3): a letter's value 0--25 whatever its case,
  and the transformation with the seed carried along.\<close>

definition is_letter :: "byte \<Rightarrow> bool" where
  "is_letter x \<longleftrightarrow> (65 \<le> uint x \<and> uint x \<le> 90) \<or> (97 \<le> uint x \<and> uint x \<le> 122)"

definition letter_val :: "byte \<Rightarrow> int" where
  "letter_val x = (if 97 \<le> uint x then uint x - 97 else uint x - 65)"

definition case_base :: "byte \<Rightarrow> int" where
  "case_base x = (if 97 \<le> uint x then 97 else 65)"

fun transform_ref :: "int \<Rightarrow> byte list \<Rightarrow> byte list" where
  "transform_ref seed [] = []"
| "transform_ref seed (x # xs) =
     to_uint8 (case_base x + (seed + letter_val x) mod 26) # transform_ref (seed + 2 + letter_val x) xs"

section \<open>Properties\<close>

lemma js_rem_nonneg [js_simps]: "0 \<le> a \<Longrightarrow> 0 < b \<Longrightarrow> js_rem a b = a mod b"
  by (simp add: js_rem_def signed_modulo_int_eq_modulo_int sgn_if)

lemma letter_val_range: "is_letter x \<Longrightarrow> 0 \<le> letter_val x \<and> letter_val x < 26"
  by (auto simp: is_letter_def letter_val_def)

lemma transform_loop_Cons_val:
  "transform_loop b c (x # xs) =
     (let a = letter_val x; b1 = (if c = 0 then 3 + a else b)
      in to_uint8 (case_base x + js_rem (a + b1) 26) # transform_loop (b1 + 2 + a) (Suc c) xs)"
proof -
  have "(if 97 \<le> uint x then uint x - 32 else uint x) - 65 = letter_val x"
    by (simp add: letter_val_def)
  then show ?thesis by (simp only: transform_loop.simps Let_def case_base_def add.commute)
qed

lemma transform_loop_ref:
  "list_all is_letter xs \<Longrightarrow> 0 \<le> b \<Longrightarrow> transform_loop b (Suc c) xs = transform_ref b xs"
proof (induction xs arbitrary: b c)
  case Nil
  then show ?case by simp
next
  case (Cons x xs)
  have v: "0 \<le> letter_val x" using Cons.prems letter_val_range by simp
  have ih: "transform_loop (b + 2 + letter_val x) (Suc (Suc c)) xs = transform_ref (b + 2 + letter_val x) xs"
    using Cons.prems v by (intro Cons.IH) simp_all
  have e: "js_rem (letter_val x + b) 26 = (b + letter_val x) mod 26"
    using v Cons.prems(2) by (simp add: js_rem_nonneg add.commute)
  have "transform_loop b (Suc c) (x # xs) =
        to_uint8 (case_base x + js_rem (letter_val x + b) 26) # transform_loop (b + 2 + letter_val x) (Suc (Suc c)) xs"
    by (simp only: transform_loop_Cons_val Let_def nat.distinct if_False)
  then show ?case by (simp only: e ih transform_ref.simps)
qed

text \<open>
  C27 (identifier transform, equivalence): on an identifier of letters the in-place loop of
  \<^verbatim>\<open>isValidVersion\<close> computes the spec's transformation: the seed starts at
  \<open>3 + v\<^sub>0\<close>, each output is \<open>(seed + v\<^sub>i) mod 26\<close> in the case of the input
  letter, and the seed grows by \<open>2 + v\<^sub>i\<close>.
\<close>

theorem transform_id_ref:
  assumes "list_all is_letter xs"
  shows "transform_id xs = (case xs of [] \<Rightarrow> [] | x # _ \<Rightarrow> transform_ref (3 + letter_val x) xs)"
proof (cases xs)
  case Nil
  then show ?thesis by (simp add: transform_id_def)
next
  case (Cons x ys)
  have v: "0 \<le> letter_val x" using assms Cons letter_val_range by simp
  have ih: "transform_loop (3 + letter_val x + 2 + letter_val x) (Suc 0) ys = transform_ref (3 + letter_val x + 2 + letter_val x) ys"
    using assms Cons v by (intro transform_loop_ref) simp_all
  have e: "js_rem (letter_val x + (3 + letter_val x)) 26 = (3 + letter_val x + letter_val x) mod 26"
    using v by (simp add: js_rem_nonneg add.commute add.left_commute)
  have "transform_id xs =
        to_uint8 (case_base x + js_rem (letter_val x + (3 + letter_val x)) 26) #
        transform_loop (3 + letter_val x + 2 + letter_val x) (Suc 0) ys"
    by (simp only: Cons transform_id_def transform_loop_Cons_val Let_def if_True simp_thms)
  then show ?thesis by (simp only: e ih transform_ref.simps Cons list.case)
qed

theorem transform_id_ref_witness:
  "list_all is_letter [65, 98, 122 :: byte] \<and> transform_id [65, 98, 122] = [68, 103, 104]"
proof -
  have h: "list_all is_letter [65, 98, 122 :: byte]" by (simp add: is_letter_def)
  have "transform_ref (3 + letter_val 65) [65, 98, 122 :: byte] = [68, 103, 104]"
    by (simp add: letter_val_def case_base_def to_uint8_def)
  then show ?thesis using h transform_id_ref [OF h] by simp
qed

lemma transform_ref_letters:
  "list_all is_letter xs \<Longrightarrow> list_all is_letter (transform_ref b xs) \<and> length (transform_ref b xs) = length xs"
proof (induction xs arbitrary: b)
  case Nil
  then show ?case by simp
next
  case (Cons x xs)
  define r where "r = (b + letter_val x) mod 26"
  have r: "0 \<le> r" "r < 26" by (simp_all add: r_def)
  have cb: "case_base x = 65 \<or> case_base x = 97" by (simp add: case_base_def)
  have u: "uint (to_uint8 (case_base x + r)) = case_base x + r"
    using r cb by (auto simp: to_uint8_uint)
  have "is_letter (to_uint8 (case_base x + r))"
    unfolding is_letter_def u using r cb by auto
  with Cons show ?case by (simp add: r_def)
qed

text \<open>
  C28 (the challenge is never rejected): whatever the challenge text and whatever the
  pattern extractor returns, \<^verbatim>\<open>isValidVersion\<close> never answers \<^verbatim>\<open>false\<close>: the
  final range check reads \<^verbatim>\<open>c.length\<close> of the number the loop variable \<^verbatim>\<open>c\<close> was
  rebound to, so it runs no iteration. A challenge with a character outside the range,
  which the intended check on the text rejects, is accepted.
\<close>

theorem isValidVersion_never_rejects:
  "isValidVersion ex idba c \<noteq> Inr (False, idba') \<and> \<not> range_check (JStr [1]) \<and>
   isValidVersion (\<lambda>_. (None, None)) idba [1] = Inr (True, transform_id idba)"
  by (auto simp: isValidVersion_def range_check_def js_length_def copy_secret_def
           split: prod.splits sum.splits)

text \<open>
  A missing secret string throws: when the extractor finds a positive loop bound but no
  string literal, the copy loop calls \<^verbatim>\<open>charCodeAt\<close> on \<^verbatim>\<open>null\<close> and
  \<^verbatim>\<open>gotServerVersion\<close> throws a \<^verbatim>\<open>TypeError\<close> instead of failing the handshake.
\<close>

theorem gotServerVersion_type_error:
  assumes "ex (decode_challenge s) = (None, Some n)" "0 < n"
  shows "gotServerVersion ex rid cv s = Inl TypeError"
  using assms by (simp add: gotServerVersion_def isValidVersion_def copy_secret_def)

theorem gotServerVersion_type_error_witness:
  "(\<lambda>_. (None, Some 3)) (decode_challenge [1, 2]) = (None, Some (3::nat)) \<and> 0 < (3::nat) \<and>
   gotServerVersion (\<lambda>_. (None, Some 3)) [65, 66] 0 [1, 2] = Inl TypeError"
proof -
  have h: "(\<lambda>_. (None, Some 3)) (decode_challenge [1, 2]) = (None, Some (3::nat))" by simp
  show ?thesis using gotServerVersion_type_error [OF h] by simp
qed

lemma clientInit_layout:
  "length (clientInit cv) = 28 \<and> uint (clientInit cv ! 2) * 256 + uint (clientInit cv ! 3) = int client_version \<and>
   take 4 (drop 4 (clientInit cv)) = take 4 cpw \<and> drop 26 (clientInit cv) = [0, 255] \<and>
   clientInit cv ! 24 = word_of_nat cv"
  by (simp add: clientInit_def cpw_def client_version_def)

end
