(* ===== verification/Extract.thy ===== *)
theory Extract
  imports Handshake "HOL-Library.Monad_Syntax" "HOL-Library.Code_Target_Nat"
begin

text \<open>
  Model of \<^verbatim>\<open>extractStringAndNumber\<close> (\<^verbatim>\<open>src/socketClient.js\<close>, lines 455--493), the
  extractor the handshake applies to the decoded challenge text. The text is a list of UTF-16
  code units (\<open>nat list\<close>), as in \<open>Handshake\<close>. Each of the three regular expressions
  is a function computing the match the JavaScript engine returns: a search tries the start
  positions from left to right; a greedy run of \<^verbatim>\<open>\s\<close> or \<^verbatim>\<open>\w\<close> is followed by a
  character it cannot hold, so backtracking into it never helps and it is taken whole; the
  lazy body \<^verbatim>\<open>(?:\\.|(?!\1)[\s\S])*?\<close> of a quoted literal is the depth-first search the
  engine performs (\<open>lit_body\<close>). \<^verbatim>\<open>JSON.parse\<close> is modelled on the texts it is given
  here, a JSON string literal (\<open>json_parse_str\<close>).
\<close>

text \<open>\<^verbatim>\<open>\s\<close> (white space and line terminators), \<^verbatim>\<open>\w\<close>, \<^verbatim>\<open>\d\<close>, the line terminators
  that \<^verbatim>\<open>.\<close> does not match, and the three quotes of \<^verbatim>\<open>(['"`])\<close>.\<close>

definition re_space :: "nat \<Rightarrow> bool" where
  "re_space c \<longleftrightarrow> (9 \<le> c \<and> c \<le> 13) \<or> (8192 \<le> c \<and> c \<le> 8202) \<or>
     c \<in> set [32, 160, 5760, 8232, 8233, 8239, 8287, 12288, 65279]"

definition re_digit :: "nat \<Rightarrow> bool" where
  "re_digit c \<longleftrightarrow> 48 \<le> c \<and> c \<le> 57"

definition word_char :: "nat \<Rightarrow> bool" where
  "word_char c \<longleftrightarrow> re_digit c \<or> (65 \<le> c \<and> c \<le> 90) \<or> (97 \<le> c \<and> c \<le> 122) \<or> c = 95"

definition line_term :: "nat \<Rightarrow> bool" where
  "line_term c \<longleftrightarrow> c \<in> set [10, 13, 8232, 8233]"

definition quote_char :: "nat \<Rightarrow> bool" where
  "quote_char c \<longleftrightarrow> c \<in> set [39, 34, 96]"

text \<open>The tokens of the patterns: a fixed word, \<^verbatim>\<open>\s*\<close>, \<^verbatim>\<open>\s+\<close>, \<^verbatim>\<open>\w+\<close>; each
  returns what is left of the text.\<close>

definition lit :: "string \<Rightarrow> nat list \<Rightarrow> nat list option" where
  "lit w s = (if take (length w) s = map of_char w then Some (drop (length w) s) else None)"

definition ws0 :: "nat list \<Rightarrow> nat list option" where
  "ws0 s = Some (dropWhile re_space s)"

definition ws1 :: "nat list \<Rightarrow> nat list option" where
  "ws1 s = (if s \<noteq> [] \<and> re_space (hd s) then Some (dropWhile re_space s) else None)"

definition word1 :: "nat list \<Rightarrow> nat list option" where
  "word1 s = (if s \<noteq> [] \<and> word_char (hd s) then Some (dropWhile word_char s) else None)"

text \<open>The lazy body of a literal opened by quote \<open>q\<close>, and what follows its closing quote.
  At each step the engine first tries to close, then \<^verbatim>\<open>\\.\<close> (a backslash and any
  character but a line terminator), then one character other than \<open>q\<close>.\<close>

function lit_body :: "nat \<Rightarrow> nat list \<Rightarrow> (nat list \<times> nat list) option" where
  "lit_body q [] = None"
| "lit_body q (c # r) =
     (if c = q then Some ([], r)
      else (case (if c = 92 \<and> r \<noteq> [] \<and> \<not> line_term (hd r)
                  then map_option (\<lambda>(b, t). (c # hd r # b, t)) (lit_body q (tl r)) else None) of
              Some m \<Rightarrow> Some m
            | None \<Rightarrow> map_option (\<lambda>(b, t). (c # b, t)) (lit_body q r)))"
  by pat_completeness auto
termination
  by (relation "measure (\<lambda>(q, s). length s)") auto

definition quoted :: "nat list \<Rightarrow> (nat list \<times> nat list) option" where
  "quoted s = (if s \<noteq> [] \<and> quote_char (hd s) then lit_body (hd s) (tl s) else None)"

text \<open>\<^verbatim>\<open>initRe\<close>, line 459, matched at the start of \<open>s\<close>: the body of the literal.\<close>

definition init_at :: "nat list \<Rightarrow> nat list option" where
  "init_at s = map_option fst
     (lit ''var'' s \<bind> ws1 \<bind> lit ''a'' \<bind> ws0 \<bind> lit ''='' \<bind> ws0 \<bind> quoted)"

text \<open>The first match of a pattern: the start positions from left to right.\<close>

fun search :: "(nat list \<Rightarrow> 'a option) \<Rightarrow> nat list \<Rightarrow> 'a option" where
  "search f [] = f []"
| "search f (c # r) = (case f (c # r) of Some m \<Rightarrow> Some m | None \<Rightarrow> search f r)"

text \<open>\<^verbatim>\<open>concatRe\<close>, line 463, at a start where \<^verbatim>\<open>\b\<close> holds: \<^verbatim>\<open>a += '...'\<close> or
  \<^verbatim>\<open>a = a + '...'\<close>; the two prefixes differ at the character after \<^verbatim>\<open>a\s*\<close>.\<close>

definition concat_at :: "nat list \<Rightarrow> (nat list \<times> nat list) option" where
  "concat_at s =
     (lit ''a'' s \<bind> ws0 \<bind>
       (\<lambda>r. case lit ''+='' r of
              Some r' \<Rightarrow> ws0 r'
            | None \<Rightarrow> lit ''='' r \<bind> ws0 \<bind> lit ''a'' \<bind> ws0 \<bind> lit ''+'' \<bind> ws0)
      \<bind> quoted)"

text \<open>The \<^verbatim>\<open>while ((m = concatRe.exec(src)) !== null)\<close> loop, lines 469--471: the bodies
  of the successive matches. \<open>pw\<close> tells whether the character before the current position
  is a word character, for \<^verbatim>\<open>\b\<close>; a match ends with a quote.\<close>

function concat_scan :: "bool \<Rightarrow> nat list \<Rightarrow> nat list list" where
  "concat_scan pw [] = []"
| "concat_scan pw (c # r) =
     (case (if pw then None else concat_at (c # r)) of
        Some (b, t) \<Rightarrow> b # concat_scan False t
      | None \<Rightarrow> concat_scan (word_char c) r)"
  by pat_completeness auto
termination
proof (relation "measure (\<lambda>(pw, s). length s)", goal_cases)
  case 1
  show ?case by simp
next
  case 2
  show ?case by simp
next
  case (3 pw c r m b t)
  have body: "lit_body q u = Some (b', t') \<Longrightarrow> length t' < length u" for q u b' t'
    by (induction q u arbitrary: b' rule: lit_body.induct) (auto split: if_splits option.splits)
  have lit: "lit w u = Some v \<Longrightarrow> length v \<le> length u" for w u v
    by (auto simp: lit_def split: if_splits)
  have ws: "ws0 u = Some v \<Longrightarrow> length v \<le> length u" for u v
    by (auto simp: ws0_def length_dropWhile_le)
  from 3 have "concat_at (c # r) = Some (b, t)" by (simp split: if_splits)
  then obtain y0 y1 y where a: "lit ''a'' (c # r) = Some y0" and w: "ws0 y0 = Some y1"
    and mid: "(case lit ''+='' y1 of Some x \<Rightarrow> ws0 x
              | None \<Rightarrow> lit ''='' y1 \<bind> ws0 \<bind> lit ''a'' \<bind> ws0 \<bind> lit ''+'' \<bind> ws0) = Some y"
    and q: "quoted y = Some (b, t)"
    by (auto simp: concat_at_def bind_eq_Some_conv)
  have "length y \<le> length y1"
    using mid by (auto split: option.splits simp: bind_eq_Some_conv dest!: lit ws)
  moreover have "length y1 \<le> length (c # r)" using lit [OF a] ws [OF w] by simp
  moreover have "lit_body (hd y) (tl y) = Some (b, t)" using q by (simp add: quoted_def split: if_splits)
  then have "length t < length (tl y)" by (rule body)
  ultimately show ?case by simp
qed

declare concat_scan.simps [simp del]

text \<open>\<^verbatim>\<open>forRe\<close>, line 485: the digits of the loop bound. The optional \<^verbatim>\<open>var\s+\<close>
  is tried first, then skipped.\<close>

definition for_tail :: "nat list \<Rightarrow> nat list option" where
  "for_tail s =
     (word1 s \<bind> ws0 \<bind> lit ''='' \<bind> ws0 \<bind> lit ''0'' \<bind> ws0 \<bind> lit '';'' \<bind> ws0 \<bind> word1 \<bind> ws0 \<bind>
      lit ''<'' \<bind> ws0 \<bind>
      (\<lambda>r. if r \<noteq> [] \<and> re_digit (hd r) then
             map_option (\<lambda>_. takeWhile re_digit r)
               (ws0 (dropWhile re_digit r) \<bind> lit '';'' \<bind> ws0 \<bind> word1 \<bind> lit ''++'' \<bind> ws0 \<bind> lit '')'')
           else None))"

definition for_at :: "nat list \<Rightarrow> nat list option" where
  "for_at s =
     (lit ''for'' s \<bind> ws0 \<bind> lit ''('' \<bind> ws0 \<bind>
       (\<lambda>r. case lit ''var'' r \<bind> ws1 \<bind> for_tail of Some d \<Rightarrow> Some d | None \<Rightarrow> for_tail r))"

text \<open>\<^verbatim>\<open>parseInt(d, 10)\<close> of a digit string, and \<^verbatim>\<open>Number.isFinite\<close> of it: the value
  rounds to \<^verbatim>\<open>Infinity\<close> from \<open>2^1024 - 2^970\<close> on.\<close>

definition digits_val :: "nat list \<Rightarrow> nat" where
  "digits_val ds = foldl (\<lambda>n d. 10 * n + (d - 48)) 0 ds"

definition js_count :: "nat \<Rightarrow> nat option" where
  "js_count n = (if n < 2 ^ 1024 - 2 ^ 970 then Some n else None)"

text \<open>The escaping of line 478: \<^verbatim>\<open>replace(/\\/g, '\\\\')\<close>, then
  \<^verbatim>\<open>replace(/"/g, '\\"')\<close>.\<close>

definition esc_backslash :: "nat list \<Rightarrow> nat list" where
  "esc_backslash s = concat (map (\<lambda>c. if c = 92 then [92, 92] else [c]) s)"

definition esc_quote :: "nat list \<Rightarrow> nat list" where
  "esc_quote s = concat (map (\<lambda>c. if c = 34 then [92, 34] else [c]) s)"

text \<open>A JSON string literal after its opening quote: the value and what follows the closing
  quote. A raw control character, a lone backslash or an unknown escape is a syntax error.\<close>

definition hex_digit :: "nat \<Rightarrow> nat option" where
  "hex_digit c = (if 48 \<le> c \<and> c \<le> 57 then Some (c - 48) else if 65 \<le> c \<and> c \<le> 70 then Some (c - 55)
                  else if 97 \<le> c \<and> c \<le> 102 then Some (c - 87) else None)"

definition json_escape :: "nat \<Rightarrow> nat option" where
  "json_escape e = map_of [(34, 34), (92, 92), (47, 47), (98, 8), (102, 12), (110, 10), (114, 13), (116, 9)] e"

function json_body :: "nat list \<Rightarrow> (nat list \<times> nat list) option" where
  "json_body [] = None"
| "json_body (c # r) =
     (if c = 34 then Some ([], r)
      else if c < 32 then None
      else if c = 92 then
        (case r of
           [] \<Rightarrow> None
         | e # r' \<Rightarrow>
             (case json_escape e of
                Some v \<Rightarrow> map_option (\<lambda>(b, t). (v # b, t)) (json_body r')
              | None \<Rightarrow>
                  (if e = 117 \<and> 4 \<le> length r' \<and> list_all (\<lambda>x. hex_digit x \<noteq> None) (take 4 r')
                   then map_option (\<lambda>(b, t). (foldl (\<lambda>n x. 16 * n + the (hex_digit x)) 0 (take 4 r') # b, t))
                          (json_body (drop 4 r'))
                   else None)))
      else map_option (\<lambda>(b, t). (c # b, t)) (json_body r))"
  by pat_completeness auto
termination
  by (relation "measure length") auto

definition json_ws :: "nat \<Rightarrow> bool" where
  "json_ws c \<longleftrightarrow> c \<in> set [9, 10, 13, 32]"

definition json_parse_str :: "nat list \<Rightarrow> nat list option" where
  "json_parse_str t =
     (let u = dropWhile json_ws t in
      if u \<noteq> [] \<and> hd u = 34 then
        (case json_body (tl u) of Some (v, rest) \<Rightarrow> if list_all json_ws rest then Some v else None
         | None \<Rightarrow> None)
      else None)"

text \<open>Lines 475--481: \<^verbatim>\<open>JSON.parse('"' + safe + '"')\<close>, the string unchanged when it
  throws.\<close>

definition json_unescape :: "nat list \<Rightarrow> nat list" where
  "json_unescape s = (case json_parse_str (34 # esc_quote (esc_backslash s) @ [34]) of Some v \<Rightarrow> v | None \<Rightarrow> s)"

text \<open>\<^verbatim>\<open>extractStringAndNumber\<close>: the string is \<^verbatim>\<open>null\<close> without an initial
  literal, otherwise its body followed by the bodies of all the concatenations of the text,
  unescaped; the count is \<^verbatim>\<open>null\<close> without a loop or for a bound that is not finite.\<close>

definition extractStringAndNumber :: extractor where
  "extractStringAndNumber src =
     ((case search init_at src of
         None \<Rightarrow> None
       | Some b \<Rightarrow> Some (json_unescape (b @ concat (concat_scan False src)))),
      (case search for_at src of None \<Rightarrow> None | Some d \<Rightarrow> js_count (digits_val d)))"

text \<open>A challenge text of the documented shape: the initial literal, the concatenations,
  then the copy loop with its bound, all literals single-quoted.\<close>

definition units :: "string \<Rightarrow> nat list" where
  "units s = map of_char s"

definition challenge_src :: "nat list \<Rightarrow> nat list list \<Rightarrow> nat \<Rightarrow> nat list" where
  "challenge_src s0 ss n =
     units ''var a = '' @ [39] @ s0 @ [39, 59] @
     concat (map (\<lambda>s. units '' a += '' @ [39] @ s @ [39, 59]) ss) @
     units '' for (var i = 0; i < '' @ units (radix_string 10 n) @ units ''; i++) {}''"

text \<open>The escaping of line 478 followed by \<^verbatim>\<open>JSON.parse\<close> gives the string back: a
  backslash is read back from \<^verbatim>\<open>\\\\\<close>, a quote from \<^verbatim>\<open>\\"\<close>, and a control
  character makes the parse throw, which keeps the string too.\<close>

lemma esc_both: "esc_quote (esc_backslash s) = concat (map (\<lambda>c. if c = 92 then [92, 92] else if c = 34 then [92, 34] else [c]) s)"
  by (induction s) (auto simp: esc_quote_def esc_backslash_def)

lemma json_body_esc:
  "json_body (esc_quote (esc_backslash s) @ 34 # t) = (if list_ex (\<lambda>c. c < 32) s then None else Some (s, t))"
  by (induction s) (auto simp: esc_both json_escape_def)

lemma json_unescape_id: "json_unescape s = s"
  by (simp add: json_unescape_def json_parse_str_def json_ws_def json_body_esc)

text \<open>The decimal digits \<^verbatim>\<open>toString()\<close> writes are read back by \<^verbatim>\<open>parseInt\<close>.\<close>

lemma radix10_digits:
  "units (radix_string 10 n) \<noteq> [] \<and> list_all re_digit (units (radix_string 10 n)) \<and>
   digits_val (units (radix_string 10 n)) = n"
proof (induction n rule: less_induct)
  case (less n)
  have dc: "d < 10 \<Longrightarrow> of_char (digit_char d) = 48 + d" for d
    by (simp add: digit_char_def)
  show ?case
  proof (cases "n < 10")
    case True
    then show ?thesis by (simp add: radix_string.simps units_def digits_val_def dc re_digit_def)
  next
    case False
    then have "n div 10 < n" by simp
    with less have ih: "units (radix_string 10 (n div 10)) \<noteq> [] \<and> list_all re_digit (units (radix_string 10 (n div 10))) \<and>
        digits_val (units (radix_string 10 (n div 10))) = n div 10" by blast
    have "radix_string 10 n = radix_string 10 (n div 10) @ [digit_char (n mod 10)]"
      using False by (simp add: radix_string.simps)
    then show ?thesis using ih by (auto simp: units_def digits_val_def dc re_digit_def list_all_iff)
  qed
qed

text \<open>A literal body without quote or backslash ends at the first quote.\<close>

lemma lit_body_plain: "list_all (\<lambda>c. c \<noteq> q \<and> c \<noteq> 92) s \<Longrightarrow> lit_body q (s @ q # t) = Some (s, t)"
  by (induction s) auto

lemma word_char_plain: "word_char c \<Longrightarrow> \<not> re_space c \<and> c \<noteq> 39 \<and> c \<noteq> 92 \<and> c \<noteq> 40 \<and> c \<noteq> 43 \<and> c \<noteq> 61"
  by (auto simp: word_char_def re_digit_def re_space_def)

text \<open>The scan moves over a character that is not an \<^verbatim>\<open>a\<close>, and over an \<^verbatim>\<open>a\<close> that
  follows a word character.\<close>

lemma scan_nil: "concat_scan pw [] = []"
  by (simp add: concat_scan.simps)

lemma scan_skip: "c \<noteq> 97 \<or> pw \<Longrightarrow> concat_scan pw (c # r) = concat_scan (word_char c) r"
  by (auto simp: concat_scan.simps concat_at_def lit_def)

lemma scan_match: "concat_at (c # r) = Some (b, t) \<Longrightarrow> concat_scan False (c # r) = b # concat_scan False t"
  by (simp add: concat_scan.simps)

lemma scan_nomatch: "concat_at (c # r) = None \<Longrightarrow> concat_scan False (c # r) = concat_scan (word_char c) r"
  by (simp add: concat_scan.simps)

lemma concat_at_stop:
  "u \<noteq> [] \<Longrightarrow> \<not> re_space (hd u) \<Longrightarrow> hd u \<noteq> 43 \<Longrightarrow> hd u \<noteq> 61 \<Longrightarrow> concat_at (97 # u) = None"
  by (cases u) (auto simp: concat_at_def lit_def ws0_def)

lemma punct_not_word: "\<not> word_char 32 \<and> \<not> word_char 39 \<and> \<not> word_char 59 \<and> \<not> word_char 61 \<and> \<not> word_char 43 \<and>
    \<not> word_char 40 \<and> \<not> word_char 41 \<and> \<not> word_char 60 \<and> \<not> word_char 123 \<and> \<not> word_char 125"
  by (simp add: word_char_def re_digit_def)

lemma scan_word: "list_all word_char w \<Longrightarrow> concat_scan pw (w @ 39 # r) = concat_scan False r"
proof (induction w arbitrary: pw)
  case Nil
  then show ?case by (simp add: scan_skip punct_not_word)
next
  case (Cons c w)
  have hd: "w @ 39 # r \<noteq> [] \<and> \<not> re_space (hd (w @ 39 # r)) \<and> hd (w @ 39 # r) \<noteq> 43 \<and> hd (w @ 39 # r) \<noteq> 61"
    using Cons.prems word_char_plain by (cases w) (auto simp: re_space_def)
  show ?case
  proof (cases "c = 97 \<and> \<not> pw")
    case True
    then show ?thesis using Cons concat_at_stop hd by (simp add: scan_nomatch)
  next
    case False
    then show ?thesis using Cons by (simp add: scan_skip)
  qed
qed

lemma scan_no_a: "list_all (\<lambda>c. c \<noteq> 97) xs \<Longrightarrow> concat_scan pw xs = []"
  by (induction xs arbitrary: pw) (simp_all add: scan_skip scan_nil)

lemma scan_seg:
  assumes "list_all word_char s"
  shows "concat_scan False (units '' a += '' @ 39 # s @ 39 # 59 # u) = s # concat_scan False u"
proof -
  have plain: "list_all (\<lambda>c. c \<noteq> 39 \<and> c \<noteq> 92) s" using assms word_char_plain by (auto simp: list_all_iff)
  have "concat_at (97 # 32 # 43 # 61 # 32 # 39 # s @ 39 # 59 # u) = Some (s, 59 # u)"
    using lit_body_plain [OF plain] by (simp add: concat_at_def lit_def ws0_def quoted_def re_space_def quote_char_def)
  then show ?thesis by (simp add: units_def scan_skip scan_match punct_not_word)
qed

lemma scan_segs:
  "list_all (list_all word_char) ss \<Longrightarrow>
   concat_scan False (concat (map (\<lambda>s. units '' a += '' @ [39] @ s @ [39, 59]) ss) @ r) = ss @ concat_scan False r"
  by (induction ss) (simp_all add: scan_seg)

lemma word_then_quote:
  "list_all word_char w \<Longrightarrow> w @ 39 # r \<noteq> [] \<and> \<not> re_space (hd (w @ 39 # r)) \<and> hd (w @ 39 # r) \<noteq> 40"
  using word_char_plain by (cases w) (auto simp: re_space_def)

lemma scan_prefix:
  "list_all word_char s0 \<Longrightarrow> concat_scan False (units ''var a = '' @ 39 # s0 @ 39 # 59 # r) = concat_scan False r"
proof -
  assume w: "list_all word_char s0"
  have "concat_at (97 # 32 # 61 # 32 # 39 # s0 @ 39 # 59 # r) = None"
    by (simp add: concat_at_def lit_def ws0_def re_space_def)
  then show ?thesis using scan_word [OF w, of False "59 # r"]
    by (simp add: units_def scan_skip scan_nomatch punct_not_word word_char_def re_digit_def)
qed

lemma scan_tail:
  "list_all re_digit ds \<Longrightarrow> concat_scan False (units '' for (var i = 0; i < '' @ ds @ units ''; i++) {}'') = []"
proof -
  assume d: "list_all re_digit ds"
  have "list_all (\<lambda>c. c \<noteq> 97) (units ''r i = 0; i < '' @ ds @ units ''; i++) {}'')"
    using d by (auto simp: units_def list_all_iff re_digit_def)
  then have "concat_scan True (units ''r i = 0; i < '' @ ds @ units ''; i++) {}'') = []" by (rule scan_no_a)
  then show ?thesis by (simp add: units_def scan_skip word_char_def re_digit_def)
qed

lemma for_at_word:
  assumes "list_all word_char u"
  shows "for_at (u @ 39 # r) = None"
proof (cases "lit ''for'' (u @ 39 # r)")
  case None
  then show ?thesis by (simp add: for_at_def)
next
  case (Some v)
  then have t: "take 3 (u @ 39 # r) = [102, 111, 114]" and v: "v = drop 3 (u @ 39 # r)"
    by (auto simp: lit_def numeral_3_eq_3 split: if_splits)
  have "3 \<le> length u"
  proof (rule ccontr)
    assume "\<not> 3 \<le> length u"
    then obtain k where "3 - length u = Suc k" using not0_implies_Suc by fastforce
    then have "39 \<in> set (take 3 (u @ 39 # r))" by (simp add: take_append)
    with t show False by simp
  qed
  then have v': "v = drop 3 u @ 39 # r" using v by simp
  have "list_all word_char (drop 3 u)" using assms by (auto simp: list_all_iff dest: in_set_dropD)
  then have "v \<noteq> [] \<and> \<not> re_space (hd v) \<and> hd v \<noteq> 40" using word_then_quote [of "drop 3 u" r] v' by simp
  then obtain y ys where "v = y # ys" "\<not> re_space y" "y \<noteq> 40" by (cases v) auto
  then have "ws0 v = Some v" "lit ''('' v = None" by (auto simp: ws0_def lit_def)
  then show ?thesis using Some by (simp add: for_at_def)
qed

lemma for_at_nf: "c \<noteq> 102 \<Longrightarrow> for_at (c # r) = None"
  by (simp add: for_at_def lit_def)

lemma search_word_for: "list_all word_char w \<Longrightarrow> search for_at (w @ 39 # r) = search for_at (39 # r)"
proof (induction w)
  case Nil
  then show ?case by simp
next
  case (Cons c w)
  then have "for_at ((c # w) @ 39 # r) = None" by (intro for_at_word)
  with Cons show ?case by simp
qed

lemma search_segs:
  "list_all (list_all word_char) ss \<Longrightarrow>
   search for_at (concat (map (\<lambda>s. units '' a += '' @ [39] @ s @ [39, 59]) ss) @ r) = search for_at r"
proof (induction ss)
  case Nil
  then show ?case by simp
next
  case (Cons s ss)
  then have "search for_at (s @ 39 # 59 # u) = search for_at (39 # 59 # u)" for u
    by (simp add: search_word_for)
  with Cons show ?case by (simp add: units_def for_at_nf)
qed

lemma for_tail_prefix:
  "(word1 (units ''i = 0; i < '' @ x) \<bind> ws0 \<bind> lit ''='' \<bind> ws0 \<bind> lit ''0'' \<bind> ws0 \<bind> lit '';'' \<bind> ws0 \<bind>
    word1 \<bind> ws0 \<bind> lit ''<'' \<bind> ws0) = Some (dropWhile re_space x)"
  by (simp add: units_def ws0_def re_space_def word1_def word_char_def re_digit_def lit_def)

lemma for_tail_digits:
  assumes "ds \<noteq> []" "list_all re_digit ds"
  shows "for_tail (units ''i = 0; i < '' @ ds @ units ''; i++) {}'') = Some ds"
proof -
  have all: "\<forall>x\<in>set ds. re_digit x" using assms(2) by (simp add: list_all_iff)
  have tw: "takeWhile re_digit (ds @ 59 # r) = ds" "dropWhile re_digit (ds @ 59 # r) = 59 # r" for r
    using all by (simp_all add: takeWhile_append2 dropWhile_append2 re_digit_def)
  have "re_digit (hd ds)" using all hd_in_set [OF assms(1)] by blast
  then have "\<not> re_space (hd ds)" by (simp add: re_digit_def re_space_def)
  then have dw: "dropWhile re_space (ds @ r) = ds @ r" for r using assms(1) by (cases ds) auto
  have hd: "ds @ r \<noteq> [] \<and> re_digit (hd (ds @ r))" for r using assms all by simp
  show ?thesis unfolding for_tail_def for_tail_prefix dw
    using hd tw by (simp add: units_def ws0_def re_space_def word1_def word_char_def lit_def re_digit_def)
qed

lemma for_at_tail:
  assumes "ds \<noteq> []" "list_all re_digit ds"
  shows "for_at (units ''for (var i = 0; i < '' @ ds @ units ''; i++) {}'') = Some ds"
proof -
  define y where "y = units ''i = 0; i < '' @ ds @ units ''; i++) {}''"
  have ft: "for_tail y = Some ds" unfolding y_def by (rule for_tail_digits [OF assms])
  have dy: "dropWhile re_space y = y" by (simp add: y_def units_def re_space_def)
  have "units ''for (var i = 0; i < '' @ ds @ units ''; i++) {}'' = units ''for (var '' @ y"
    by (simp add: y_def units_def)
  then show ?thesis using ft dy by (simp add: units_def for_at_def lit_def ws0_def ws1_def re_space_def)
qed

text \<open>
  C37 (the extractor reads a documented challenge): for a challenge text of the shape the
  handshake expects, an initial literal \<^verbatim>\<open>var a = '...'\<close>, literals appended with
  \<^verbatim>\<open>a += '...'\<close>, then \<^verbatim>\<open>for (var i = 0; i < N; i++)\<close>, with literals of word
  characters, \<^verbatim>\<open>extractStringAndNumber\<close> returns the concatenation of the literals and
  the bound \<open>N\<close>.
\<close>

theorem extract_challenge:
  assumes w0: "list_all word_char s0" and ws: "list_all (list_all word_char) ss"
    and n: "n < 2 ^ 1024 - 2 ^ 970"
  shows "extractStringAndNumber (challenge_src s0 ss n) = (Some (s0 @ concat ss), Some n)"
proof -
  let ?D = "units (radix_string 10 n)"
  have D: "?D \<noteq> []" "list_all re_digit ?D" "digits_val ?D = n" using radix10_digits by auto
  let ?T = "units '' for (var i = 0; i < '' @ ?D @ units ''; i++) {}''"
  let ?S = "concat (map (\<lambda>s. units '' a += '' @ [39] @ s @ [39, 59]) ss) @ ?T"
  have src: "challenge_src s0 ss n = units ''var a = '' @ 39 # s0 @ 39 # 59 # ?S"
    by (simp add: challenge_src_def)
  have plain: "list_all (\<lambda>c. c \<noteq> 39 \<and> c \<noteq> 92) s0" using w0 word_char_plain by (auto simp: list_all_iff)
  have "init_at (challenge_src s0 ss n) = Some s0"
    unfolding src using lit_body_plain [OF plain]
    by (simp add: units_def init_at_def lit_def ws0_def ws1_def quoted_def re_space_def quote_char_def)
  then have init: "search init_at (challenge_src s0 ss n) = Some s0"
    unfolding src by (simp add: units_def)
  have scan: "concat_scan False (challenge_src s0 ss n) = ss"
    unfolding src using scan_prefix [OF w0] scan_segs [OF ws] scan_tail [OF D(2)] by simp
  have "search for_at ?T = Some ?D"
    using for_at_tail [OF D(1,2)] by (simp add: units_def for_at_nf)
  then have "search for_at (s0 @ 39 # 59 # ?S) = Some ?D"
    using search_word_for [OF w0] search_segs [OF ws] by (simp add: for_at_nf)
  then have fr: "search for_at (challenge_src s0 ss n) = Some ?D"
    unfolding src by (simp add: units_def for_at_nf)
  show ?thesis using init scan fr D(3) n by (simp add: extractStringAndNumber_def json_unescape_id js_count_def)
qed

theorem extract_challenge_witness:
  "list_all word_char (units ''AbC'') \<and> list_all (list_all word_char) [units ''xy'', units ''Z9''] \<and>
   (27::nat) < 2 ^ 1024 - 2 ^ 970 \<and>
   extractStringAndNumber (challenge_src (units ''AbC'') [units ''xy'', units ''Z9''] 27) =
     (Some (units ''AbCxyZ9''), Some 27)"
proof -
  have h: "list_all word_char (units ''AbC'')" "list_all (list_all word_char) [units ''xy'', units ''Z9'']"
    "(27::nat) < 2 ^ 1024 - 2 ^ 970"
    by (simp_all add: units_def word_char_def re_digit_def)
  show ?thesis using h extract_challenge [OF h] by (simp add: units_def)
qed

text \<open>
  C38 (no escape is decoded): the string \<^verbatim>\<open>extractStringAndNumber\<close> returns is the body
  of the initial literal followed by the bodies of the concatenations, character for
  character: the unescaping step doubles every backslash before \<^verbatim>\<open>JSON.parse\<close>, so a
  \<^verbatim>\<open>\x41\<close> or \<^verbatim>\<open>\n\<close> in the challenge stays a backslash and its letters, although
  the comment of line 474 says it is decoded.
\<close>

theorem extract_keeps_escapes:
  "fst (extractStringAndNumber src) = map_option (\<lambda>b. b @ concat (concat_scan False src)) (search init_at src)"
  by (simp add: extractStringAndNumber_def json_unescape_id split: option.split)

end
