(* ===== verification/Session.thy ===== *)
theory Session
  imports Packets Minimap Handshake
begin

text \<open>
  Model of one \<^verbatim>\<open>SocketClient\<close> (\<^verbatim>\<open>src/socketClient.js\<close>, lines 94--564) as a state
  machine: the fields of the object and the socket's ready state form the record
  \<open>session\<close>; every entry point (\<^verbatim>\<open>returnStatsPromise\<close>, the socket callbacks
  \<^verbatim>\<open>onopen\<close>, \<^verbatim>\<open>onmessage\<close>, \<^verbatim>\<open>onclose\<close>, \<^verbatim>\<open>onerror\<close>, and the firing of a
  timer) is an event, and \<open>step\<close> runs the code the event triggers to completion, as the
  single-threaded event loop does. Promises are numbered by the order of the
  \<^verbatim>\<open>returnStatsPromise\<close> calls that create them; \<open>settled\<close> records, in order, which
  promise was resolved or rejected with what. The module-level score tables live in the
  field \<open>tbl\<close>; \<open>sys_step\<close> shares them among several sessions as the module does.
\<close>

datatype ws_state = CONNECTING | OPEN | CLOSING | CLOSED

text \<open>The \<^verbatim>\<open>Error\<close>s a promise is rejected with: the 15-second timeout (line 168), the
  close before completion (lines 533--536), a socket error (lines 541--544), and the
  rejection of a call after completion (line 160).\<close>

datatype sess_error = Timeout | SocketClosed nat string | SocketError string | AlreadyCompleted

text \<open>The payload of \<^verbatim>\<open>_maybeWriteJSON\<close> (lines 397--401): the leaderboard data, the
  minimap and the timestamp.\<close>

record payload =
  p_lb :: lb_data
  p_minimap :: minimap
  p_time :: nat

type_synonym outcome = "sess_error + payload"

record session =
  ws :: "ws_state option"
  completed :: bool
  waiting :: "nat option"
  stats_timeout :: "nat option"
  timers :: "nat list"
  awaits :: nat
  pend_ok :: "payload option"
  pend_err :: "sess_error option"
  settled :: "(nat \<times> outcome) list"
  idba :: "byte list"
  lbd :: "lb_data option"
  mmap :: "minimap option"
  sent :: "byte list list"
  tbl :: score_tbl
  unhandled :: nat

text \<open>The constructor (lines 95--107) and \<^verbatim>\<open>connect\<close> (109--131): the socket is
  connecting; \<open>t\<close> is the module's score table at that moment.\<close>

definition new_session :: "score_tbl \<Rightarrow> session" where
  "new_session t = \<lparr>ws = Some CONNECTING, completed = False, waiting = None, stats_timeout = None,
     timers = [], awaits = 0, pend_ok = None, pend_err = None, settled = [], idba = [],
     lbd = None, mmap = None, sent = [], tbl = t, unhandled = 0\<rparr>"

text \<open>What the environment supplies to one message: the 27 random letters of
  \<^verbatim>\<open>gotServerVersion\<close>, the random flavour of \<^verbatim>\<open>clientInit\<close> and the clock of
  \<^verbatim>\<open>_maybeWriteJSON\<close>.\<close>

record msg_env =
  env_rid :: "byte list"
  env_cv :: nat
  env_now :: nat

datatype event = EvOpen | EvMessage "byte list" msg_env | EvClose nat string | EvError string
  | EvTimer nat | EvAwait

text \<open>\<^verbatim>\<open>send\<close>, lines 547--553: a frame goes out only on an open socket.\<close>

definition send :: "byte list \<Rightarrow> session \<Rightarrow> session" where
  "send d s = (if ws s = Some OPEN then s\<lparr>sent := sent s @ [d]\<rparr> else s)"

definition send_all :: "byte list list \<Rightarrow> session \<Rightarrow> session" where
  "send_all ds s = foldl (\<lambda>s d. send d s) s ds"

definition onOpen :: "session \<Rightarrow> session" where
  "onOpen s = send_all open_frames s"

text \<open>\<^verbatim>\<open>returnStatsPromise\<close>, lines 145--171, for the promise numbered \<open>awaits s\<close>.\<close>

definition returnStatsPromise :: "session \<Rightarrow> session" where
  "returnStatsPromise s =
     (let k = awaits s; s1 = s\<lparr>awaits := Suc k\<rparr> in
      case pend_err s of
        Some e \<Rightarrow> s1\<lparr>pend_err := None, settled := settled s @ [(k, Inl e)]\<rparr>
      | None \<Rightarrow>
          (case pend_ok s of
             Some p \<Rightarrow> s1\<lparr>pend_ok := None, settled := settled s @ [(k, Inr p)]\<rparr>
           | None \<Rightarrow>
               (if completed s then s1\<lparr>settled := settled s @ [(k, Inl AlreadyCompleted)]\<rparr>
                else s1\<lparr>waiting := Some k, stats_timeout := Some k, timers := timers s @ [k]\<rparr>)))"

text \<open>\<^verbatim>\<open>if (this._statsTimeout) { clearTimeout(...); this._statsTimeout = null; }\<close>\<close>

definition clear_timer :: "session \<Rightarrow> session" where
  "clear_timer s =
     (case stats_timeout s of None \<Rightarrow> s
      | Some k \<Rightarrow> s\<lparr>stats_timeout := None, timers := remove1 k (timers s)\<rparr>)"

text \<open>\<^verbatim>\<open>close\<close>, lines 555--563; \<^verbatim>\<open>ws.close()\<close> moves an open or connecting socket to
  \<^verbatim>\<open>CLOSING\<close>.\<close>

definition close :: "session \<Rightarrow> session" where
  "close s =
     (case ws s of None \<Rightarrow> s
      | Some st \<Rightarrow> (if st = CLOSING \<or> st = CLOSED then s else s\<lparr>ws := Some CLOSING\<rparr>))"

text \<open>\<^verbatim>\<open>_succeed\<close>, lines 173--189.\<close>

definition succeed :: "payload \<Rightarrow> session \<Rightarrow> session" where
  "succeed p s =
     (if completed s then s
      else (let s1 = (clear_timer (s\<lparr>completed := True\<rparr>))\<lparr>pend_err := None\<rparr>;
                s2 = (case waiting s1 of
                        Some k \<Rightarrow> s1\<lparr>settled := settled s1 @ [(k, Inr p)]\<rparr>
                      | None \<Rightarrow> s1\<lparr>pend_ok := Some p\<rparr>)
            in close (s2\<lparr>waiting := None\<rparr>)))"

text \<open>\<^verbatim>\<open>_fail\<close>, lines 191--214.\<close>

definition fail :: "sess_error \<Rightarrow> session \<Rightarrow> session" where
  "fail e s =
     (if completed s then s
      else (let s1 = (clear_timer (s\<lparr>completed := True\<rparr>))\<lparr>pend_ok := None\<rparr>;
                s2 = (case waiting s1 of
                        Some k \<Rightarrow> s1\<lparr>settled := settled s1 @ [(k, Inl e)]\<rparr>
                      | None \<Rightarrow> s1\<lparr>pend_err := Some e\<rparr>);
                s3 = s2\<lparr>waiting := None\<rparr>
            in if ws s3 = Some OPEN \<or> ws s3 = Some CONNECTING then s3\<lparr>ws := Some CLOSING\<rparr> else s3))"

text \<open>\<^verbatim>\<open>_maybeWriteJSON\<close>, lines 395--405.\<close>

definition maybeWriteJSON :: "nat \<Rightarrow> session \<Rightarrow> session" where
  "maybeWriteJSON now s =
     (case (lbd s, mmap s) of
        (Some l, Some mm) \<Rightarrow> succeed \<lparr>p_lb = l, p_minimap = mm, p_time = now\<rparr> s
      | _ \<Rightarrow> s)"

text \<open>The text of a \<^verbatim>\<open>'6'\<close> packet, \<^verbatim>\<open>s += String.fromCharCode(a[m])\<close> (lines 281--285).\<close>

definition packet_text :: "byte list \<Rightarrow> nat list" where
  "packet_text a = map unat (drop 1 a)"

text \<open>\<^verbatim>\<open>gotPacket\<close>, lines 249--393. It is \<^verbatim>\<open>async\<close>: an exception thrown in it rejects
  the promise it returns, which nobody awaits; \<open>unhandled\<close> counts these rejections.
  \<^verbatim>\<open>this.idba\<close> has already been replaced by the random identifier when the copy loop
  throws.\<close>

definition gotPacket :: "extractor \<Rightarrow> msg_env \<Rightarrow> session \<Rightarrow> byte list \<Rightarrow> session" where
  "gotPacket ex env s a =
     (let c = cmd_of a in
      if c = 97 then s\<lparr>tbl := got_arena a (tbl s)\<rparr>
      else if c = 54 then
        (case gotServerVersion ex (env_rid env) (env_cv env) (packet_text a) of
           Inl _ \<Rightarrow> s\<lparr>idba := env_rid env, unhandled := Suc (unhandled s)\<rparr>
         | Inr (fs, idba') \<Rightarrow> send_all fs (s\<lparr>idba := idba'\<rparr>))
      else if c = 77 then maybeWriteJSON (env_now env) (s\<lparr>mmap := Some (got_minimap a)\<rparr>)
      else if c = 108 then maybeWriteJSON (env_now env) (s\<lparr>lbd := Some (got_leaderboard (tbl s) a)\<rparr>)
      else s)"

text \<open>\<^verbatim>\<open>onMessage\<close>, lines 216--247: the sub-packets in order.\<close>

definition onMessage :: "extractor \<Rightarrow> msg_env \<Rightarrow> session \<Rightarrow> byte list \<Rightarrow> session" where
  "onMessage ex env s a = foldl (gotPacket ex env) s (split_frame a)"

text \<open>\<^verbatim>\<open>onClose\<close>, lines 528--538, and \<^verbatim>\<open>onError\<close>, lines 540--545.\<close>

definition onClose :: "nat \<Rightarrow> string \<Rightarrow> session \<Rightarrow> session" where
  "onClose code reason s =
     (let s1 = s\<lparr>ws := None\<rparr> in if completed s1 then s1 else fail (SocketClosed code reason) s1)"

definition onError :: "string \<Rightarrow> session \<Rightarrow> session" where
  "onError msg s = fail (SocketError msg) s"

text \<open>One event. The socket library delivers \<^verbatim>\<open>open\<close> only to a connecting socket,
  messages only while it is open or closing, and \<^verbatim>\<open>error\<close> and \<^verbatim>\<open>close\<close> only while
  the handlers are attached (\<^verbatim>\<open>this.ws\<close> not yet \<^verbatim>\<open>null\<close>); in other states the event
  does not occur and the step is the identity. A timer fires only while armed; its
  callback is \<^verbatim>\<open>this._fail(new Error("Timed out waiting for stats"))\<close>.\<close>

definition step :: "extractor \<Rightarrow> session \<Rightarrow> event \<Rightarrow> session" where
  "step ex s ev =
     (case ev of
        EvOpen \<Rightarrow> (if ws s = Some CONNECTING then onOpen (s\<lparr>ws := Some OPEN\<rparr>) else s)
      | EvMessage a env \<Rightarrow> (if ws s = Some OPEN \<or> ws s = Some CLOSING then onMessage ex env s a else s)
      | EvClose code reason \<Rightarrow> (if ws s \<noteq> None then onClose code reason s else s)
      | EvError msg \<Rightarrow> (if ws s \<noteq> None then onError msg s else s)
      | EvTimer k \<Rightarrow> (if k \<in> set (timers s) then fail Timeout (s\<lparr>timers := remove1 k (timers s)\<rparr>) else s)
      | EvAwait \<Rightarrow> returnStatsPromise s)"

definition run :: "extractor \<Rightarrow> session \<Rightarrow> event list \<Rightarrow> session" where
  "run ex s evs = foldl (step ex) s evs"

text \<open>The states a client reaches from its construction.\<close>

inductive reach :: "extractor \<Rightarrow> score_tbl \<Rightarrow> session \<Rightarrow> bool" for ex t where
  init: "reach ex t (new_session t)"
| step: "reach ex t s \<Longrightarrow> reach ex t (step ex s ev)"

text \<open>Several clients in one process: the score table is the module's, so each event of a
  client runs on the table the previous event of any client left.\<close>

definition sys_step :: "extractor \<Rightarrow> score_tbl \<times> session list \<Rightarrow> nat \<times> event \<Rightarrow> score_tbl \<times> session list" where
  "sys_step ex ts iev =
     (case (ts, iev) of ((t, ss), (i, ev)) \<Rightarrow>
        (if i < length ss then (let s = step ex ((ss ! i)\<lparr>tbl := t\<rparr>) ev in (tbl s, ss[i := s])) else (t, ss)))"

definition sys_run :: "extractor \<Rightarrow> score_tbl \<times> session list \<Rightarrow> (nat \<times> event) list \<Rightarrow> score_tbl \<times> session list" where
  "sys_run ex ts evs = foldl (sys_step ex) ts evs"

text \<open>A concrete extractor that finds nothing, and a concrete message environment, for
  the example runs.\<close>

definition ex0 :: extractor where "ex0 c = (None, None)"

definition env0 :: msg_env where "env0 = \<lparr>env_rid = replicate 27 65, env_cv = 0, env_now = 0\<rparr>"

section \<open>Invariant\<close>

text \<open>The verdicts a client has given: the promises settled other than by the rejection
  of a call after completion, and the verdict parked in \<^verbatim>\<open>_pendingSuccess\<close> or
  \<^verbatim>\<open>_pendingFailure\<close> for a later call.\<close>

definition real_count :: "session \<Rightarrow> nat" where
  "real_count s = length (filter (\<lambda>(k, r). r \<noteq> Inl AlreadyCompleted) (settled s))
     + (if pend_ok s = None then 0 else 1) + (if pend_err s = None then 0 else 1)"

definition success_seen :: "session \<Rightarrow> bool" where
  "success_seen s \<longleftrightarrow> pend_ok s \<noteq> None \<or> list_ex (\<lambda>(k, r). \<not> isl r) (settled s)"

definition sess_inv :: "session \<Rightarrow> bool" where
  "sess_inv s \<longleftrightarrow>
     real_count s = (if completed s then 1 else 0) \<and>
     pred_option (\<lambda>k. \<not> completed s \<and> k < awaits s \<and> k \<notin> set (map fst (settled s))) (waiting s) \<and>
     distinct (map fst (settled s)) \<and> list_all (\<lambda>(k, r). k < awaits s) (settled s) \<and>
     (completed s \<longrightarrow> ws s \<noteq> Some OPEN \<and> ws s \<noteq> Some CONNECTING) \<and>
     (success_seen s \<longrightarrow> lbd s \<noteq> None \<and> mmap s \<noteq> None) \<and>
     pend_err s \<noteq> Some AlreadyCompleted"

definition inv_timer :: "session \<Rightarrow> bool" where
  "inv_timer s \<longleftrightarrow>
     pred_option (\<lambda>k. stats_timeout s = Some k \<and> k \<in> set (timers s)) (waiting s)"

text \<open>The socket states \<^verbatim>\<open>close()\<close> leaves, and the armed timers once
  \<^verbatim>\<open>_statsTimeout\<close> is cleared.\<close>

definition closing :: "ws_state option \<Rightarrow> ws_state option" where
  "closing w = (if w = Some OPEN \<or> w = Some CONNECTING then Some CLOSING else w)"

definition cleared :: "session \<Rightarrow> nat list" where
  "cleared s = (case stats_timeout s of None \<Rightarrow> timers s | Some k \<Rightarrow> remove1 k (timers s))"

definition inv_closed :: "session \<Rightarrow> bool" where
  "inv_closed s \<longleftrightarrow> (ws s = None \<longrightarrow> completed s)"

definition client_inv :: "session \<Rightarrow> bool" where
  "client_inv s \<longleftrightarrow> sess_inv s \<and> inv_timer s \<and> inv_closed s"

section \<open>Handlers preserve the invariant\<close>

lemmas inv_defs = sess_inv_def real_count_def success_seen_def

lemma sess_inv_sent [simp]: "sess_inv (s\<lparr>sent := x\<rparr>) = sess_inv s"
  by (simp add: inv_defs)

lemma send_all_eq: "send_all ds s = (if ws s = Some OPEN then s\<lparr>sent := sent s @ ds\<rparr> else s)"
  by (induction ds arbitrary: s) (simp_all add: send_all_def send_def)

lemma cleared_upd [simp]:
  "cleared (s\<lparr>completed := b\<rparr>) = cleared s" "cleared (s\<lparr>ws := w\<rparr>) = cleared s"
  by (simp_all add: cleared_def split: option.splits)

lemma close_eq: "close s = s\<lparr>ws := closing (ws s)\<rparr>"
proof (cases "ws s")
  case None
  then show ?thesis by (simp add: close_def closing_def)
next
  case (Some st)
  then show ?thesis by (cases st) (simp_all add: close_def closing_def)
qed

lemma clear_timer_eq: "clear_timer s = s\<lparr>stats_timeout := None, timers := cleared s\<rparr>"
  by (simp add: clear_timer_def cleared_def split: option.splits)

lemma succeed_eq:
  "\<not> completed s \<Longrightarrow> succeed p s =
     s\<lparr>completed := True, stats_timeout := None, timers := cleared s, pend_err := None,
       pend_ok := (if waiting s = None then Some p else pend_ok s),
       settled := settled s @ (case waiting s of Some k \<Rightarrow> [(k, Inr p)] | None \<Rightarrow> []),
       waiting := None, ws := closing (ws s)\<rparr>"
  by (cases "waiting s") (simp_all add: succeed_def close_eq clear_timer_eq Let_def)

lemma fail_eq:
  "\<not> completed s \<Longrightarrow> fail e s =
     s\<lparr>completed := True, stats_timeout := None, timers := cleared s, pend_ok := None,
       pend_err := (if waiting s = None then Some e else pend_err s),
       settled := settled s @ (case waiting s of Some k \<Rightarrow> [(k, Inl e)] | None \<Rightarrow> []),
       waiting := None, ws := closing (ws s)\<rparr>"
  by (cases "waiting s") (simp_all add: fail_def clear_timer_eq Let_def closing_def)

lemma closing_simps [simp]:
  "closing w \<noteq> Some OPEN" "closing w \<noteq> Some CONNECTING" "(closing w = None) = (w = None)"
  by (simp_all add: closing_def)

lemma pred_option_False [simp]: "pred_option (\<lambda>k. False) x = (x = None)"
  by (cases x) simp_all

lemma sess_inv_succeed:
  assumes "sess_inv s" "lbd s \<noteq> None" "mmap s \<noteq> None"
  shows "sess_inv (succeed p s)"
proof (cases "completed s")
  case True
  then show ?thesis using assms(1) by (simp add: succeed_def)
next
  case False
  then show ?thesis using assms by (cases "waiting s") (auto simp: succeed_eq inv_defs)
qed

lemma sess_inv_fail:
  assumes "sess_inv s" "e \<noteq> AlreadyCompleted"
  shows "sess_inv (fail e s)"
proof (cases "completed s")
  case True
  then show ?thesis using assms(1) by (simp add: fail_def)
next
  case False
  then show ?thesis using assms by (cases "waiting s") (auto simp: fail_eq inv_defs)
qed

lemma fail_settles:
  assumes "sess_inv s"
  shows "waiting (fail e s) = None \<and> completed (fail e s) \<and> ws (fail e s) \<noteq> Some OPEN"
proof (cases "completed s")
  case True
  then show ?thesis using assms by (simp add: fail_def inv_defs)
next
  case False
  then show ?thesis by (simp add: fail_eq)
qed

lemma returnStatsPromise_cases:
  "pend_err s = Some e \<Longrightarrow>
     returnStatsPromise s = s\<lparr>awaits := Suc (awaits s), pend_err := None, settled := settled s @ [(awaits s, Inl e)]\<rparr>"
  "pend_err s = None \<Longrightarrow> pend_ok s = Some p \<Longrightarrow>
     returnStatsPromise s = s\<lparr>awaits := Suc (awaits s), pend_ok := None, settled := settled s @ [(awaits s, Inr p)]\<rparr>"
  "pend_err s = None \<Longrightarrow> pend_ok s = None \<Longrightarrow> completed s \<Longrightarrow>
     returnStatsPromise s = s\<lparr>awaits := Suc (awaits s), settled := settled s @ [(awaits s, Inl AlreadyCompleted)]\<rparr>"
  "pend_err s = None \<Longrightarrow> pend_ok s = None \<Longrightarrow> \<not> completed s \<Longrightarrow>
     returnStatsPromise s = s\<lparr>awaits := Suc (awaits s), waiting := Some (awaits s),
       stats_timeout := Some (awaits s), timers := timers s @ [awaits s]\<rparr>"
  by (simp_all add: returnStatsPromise_def Let_def)

lemma list_all_less_Suc: "list_all (\<lambda>(k, r). k < a) xs \<Longrightarrow> list_all (\<lambda>(k, r). k < Suc a) xs"
  by (auto simp: list_all_iff)

lemma list_all_less_notin: "list_all (\<lambda>(k, r). k < (a::nat)) xs \<Longrightarrow> a \<notin> fst ` set xs"
  by (induction xs) auto

lemma sess_inv_facts:
  assumes "sess_inv s"
  shows "completed s \<Longrightarrow> waiting s = None"
    and "pend_err s \<noteq> None \<Longrightarrow> completed s"
    and "pend_ok s \<noteq> None \<Longrightarrow> completed s"
    and "awaits s \<notin> fst ` set (settled s)"
    and "\<not> completed s \<Longrightarrow> pend_ok s = None \<and> pend_err s = None"
  using assms list_all_less_notin [of "awaits s" "settled s"]
  by (auto simp: inv_defs split: if_splits)

lemma sess_inv_returnStatsPromise:
  assumes "sess_inv s"
  shows "sess_inv (returnStatsPromise s) \<and> (inv_timer s \<longrightarrow> inv_timer (returnStatsPromise s))"
proof (cases "completed s")
  case True
  then have w: "waiting s = None" by (rule sess_inv_facts(1) [OF assms])
  have fresh: "awaits s \<notin> fst ` set (settled s)" by (rule sess_inv_facts(4) [OF assms])
  consider (e) e where "pend_err s = Some e" | (p) p where "pend_err s = None" "pend_ok s = Some p"
    | (n) "pend_err s = None" "pend_ok s = None" by (cases "pend_err s"; cases "pend_ok s") auto
  then show ?thesis
  proof cases
    case e
    then show ?thesis using assms True w fresh
      by (simp add: returnStatsPromise_cases inv_defs inv_timer_def list_all_less_Suc)
  next
    case p
    then show ?thesis using assms True w fresh
      by (simp add: returnStatsPromise_cases inv_defs inv_timer_def list_all_less_Suc)
  next
    case n
    then show ?thesis using assms True w fresh
      by (simp add: returnStatsPromise_cases inv_defs inv_timer_def list_all_less_Suc)
  qed
next
  case False
  then have p: "pend_ok s = None" "pend_err s = None" using sess_inv_facts(5) [OF assms] by auto
  have fresh: "awaits s \<notin> fst ` set (settled s)" by (rule sess_inv_facts(4) [OF assms])
  show ?thesis using assms False p fresh
    by (simp add: returnStatsPromise_cases inv_defs inv_timer_def list_all_less_Suc)
qed

lemma inv_upd [simp]:
  "sess_inv (s\<lparr>tbl := t\<rparr>) = sess_inv s" "sess_inv (s\<lparr>idba := i\<rparr>) = sess_inv s"
  "sess_inv (s\<lparr>unhandled := u\<rparr>) = sess_inv s" "sess_inv (s\<lparr>timers := ts\<rparr>) = sess_inv s"
  "inv_timer (s\<lparr>sent := x\<rparr>) = inv_timer s" "inv_timer (s\<lparr>tbl := t\<rparr>) = inv_timer s"
  "inv_timer (s\<lparr>idba := i\<rparr>) = inv_timer s" "inv_timer (s\<lparr>unhandled := u\<rparr>) = inv_timer s"
  "inv_timer (s\<lparr>ws := w\<rparr>) = inv_timer s" "inv_timer (s\<lparr>lbd := l\<rparr>) = inv_timer s"
  "inv_timer (s\<lparr>mmap := m\<rparr>) = inv_timer s"
  "inv_closed (s\<lparr>sent := x\<rparr>) = inv_closed s" "inv_closed (s\<lparr>tbl := t\<rparr>) = inv_closed s"
  "inv_closed (s\<lparr>idba := i\<rparr>) = inv_closed s" "inv_closed (s\<lparr>unhandled := u\<rparr>) = inv_closed s"
  "inv_closed (s\<lparr>lbd := l\<rparr>) = inv_closed s" "inv_closed (s\<lparr>mmap := m\<rparr>) = inv_closed s"
  "inv_closed (s\<lparr>timers := ts\<rparr>) = inv_closed s"
  by (simp_all add: inv_defs inv_timer_def inv_closed_def)

lemma client_inv_send_all [simp]: "client_inv (send_all ds s) = client_inv s"
  by (simp add: send_all_eq client_inv_def)

lemma client_inv_succeed:
  assumes "client_inv s" "lbd s \<noteq> None" "mmap s \<noteq> None"
  shows "client_inv (succeed p s)"
proof (cases "completed s")
  case True
  then show ?thesis using assms(1) by (simp add: succeed_def)
next
  case False
  then show ?thesis using assms sess_inv_succeed [of s p]
    by (simp add: client_inv_def succeed_eq inv_timer_def inv_closed_def)
qed

lemma client_inv_fail:
  assumes "sess_inv s" "inv_closed s \<or> \<not> completed s" "e \<noteq> AlreadyCompleted"
  shows "client_inv (fail e s)"
proof (cases "completed s")
  case True
  then have "waiting s = None" by (rule sess_inv_facts(1) [OF assms(1)])
  then show ?thesis using True assms by (simp add: fail_def client_inv_def inv_timer_def)
next
  case False
  then show ?thesis using assms sess_inv_fail [of s e]
    by (simp add: client_inv_def fail_eq inv_timer_def inv_closed_def)
qed

lemma client_inv_maybeWriteJSON:
  "client_inv s \<Longrightarrow> client_inv (maybeWriteJSON now s)"
  by (auto simp: maybeWriteJSON_def intro: client_inv_succeed split: option.splits)

lemma client_inv_gotPacket:
  assumes "client_inv s"
  shows "client_inv (gotPacket ex env s a)"
proof -
  have m: "client_inv (s\<lparr>mmap := Some mm\<rparr>)" for mm
    using assms by (auto simp: client_inv_def inv_defs)
  have l: "client_inv (s\<lparr>lbd := Some lb\<rparr>)" for lb
    using assms by (auto simp: client_inv_def inv_defs)
  have "client_inv (s\<lparr>tbl := t\<rparr>)" "client_inv (s\<lparr>idba := i, unhandled := u\<rparr>)" for t i u
    using assms by (simp_all add: client_inv_def)
  moreover have "client_inv (send_all fs (s\<lparr>idba := i\<rparr>))" for i fs
    using assms by (simp only: client_inv_send_all) (simp add: client_inv_def)
  ultimately show ?thesis using assms client_inv_maybeWriteJSON [OF m] client_inv_maybeWriteJSON [OF l]
    by (simp add: gotPacket_def Let_def split: sum.splits prod.splits)
qed

lemma client_inv_onMessage:
  "client_inv s \<Longrightarrow> client_inv (onMessage ex env s a)"
proof -
  have "client_inv s \<Longrightarrow> client_inv (foldl (gotPacket ex env) s ps)" for ps
    by (induction ps arbitrary: s) (simp_all add: client_inv_gotPacket)
  then show "client_inv s \<Longrightarrow> client_inv (onMessage ex env s a)" by (simp add: onMessage_def)
qed

lemma client_inv_onClose:
  assumes "client_inv s"
  shows "client_inv (onClose code reason s)"
proof -
  have i: "sess_inv (s\<lparr>ws := None\<rparr>)" using assms by (simp add: client_inv_def inv_defs)
  show ?thesis
  proof (cases "completed s")
    case True
    then show ?thesis using assms i by (simp add: onClose_def client_inv_def inv_closed_def)
  next
    case False
    then show ?thesis using client_inv_fail [OF i] by (simp add: onClose_def)
  qed
qed

lemma client_inv_step:
  assumes "client_inv s"
  shows "client_inv (step ex s ev)"
proof (cases ev)
  case EvOpen
  have "\<not> completed s" if "ws s = Some CONNECTING"
    using assms that by (auto simp: client_inv_def inv_defs)
  then have "ws s = Some CONNECTING \<Longrightarrow> client_inv (s\<lparr>ws := Some OPEN\<rparr>)"
    using assms by (auto simp: client_inv_def inv_defs inv_closed_def)
  with EvOpen assms show ?thesis by (simp add: step_def onOpen_def)
next
  case (EvMessage a env)
  with assms show ?thesis by (simp add: step_def client_inv_onMessage)
next
  case (EvClose code reason)
  with assms show ?thesis by (simp add: step_def client_inv_onClose)
next
  case (EvError msg)
  have "client_inv (fail (SocketError msg) s)"
    using assms by (intro client_inv_fail) (simp_all add: client_inv_def)
  with EvError assms show ?thesis by (simp add: step_def onError_def)
next
  case (EvTimer k)
  have "client_inv (fail Timeout (s\<lparr>timers := remove1 k (timers s)\<rparr>))"
    using assms by (intro client_inv_fail) (simp_all add: client_inv_def)
  with EvTimer assms show ?thesis by (simp add: step_def)
next
  case EvAwait
  have "inv_closed (returnStatsPromise s)" using assms
    by (cases "pend_err s"; cases "pend_ok s"; cases "completed s")
       (simp_all add: returnStatsPromise_cases client_inv_def inv_closed_def)
  with EvAwait assms sess_inv_returnStatsPromise [of s] show ?thesis
    by (simp add: step_def client_inv_def)
qed
section \<open>Reachable states\<close>

inductive_cases reach_stepE: "reach ex t (step ex s ev)"

lemma client_inv_new_session: "client_inv (new_session t)"
  by (simp add: new_session_def client_inv_def inv_defs inv_timer_def inv_closed_def)

lemma reach_client_inv: "reach ex t s \<Longrightarrow> client_inv s"
  by (induction rule: reach.induct) (simp_all add: client_inv_new_session client_inv_step)

lemma run_Cons [simp]: "run ex s (ev # evs) = run ex (step ex s ev) evs"
  by (simp add: run_def)

lemma run_Nil [simp]: "run ex s [] = s"
  by (simp add: run_def)

lemma reach_run: "reach ex t s \<Longrightarrow> reach ex t (run ex s evs)"
  by (induction evs arbitrary: s) (simp_all add: reach.step)

lemma timer_fires:
  assumes "client_inv s" "waiting s = Some k"
  shows "step ex s (EvTimer k) = fail Timeout (s\<lparr>timers := remove1 k (timers s)\<rparr>) \<and> \<not> completed s"
  using assms by (auto simp: step_def client_inv_def inv_timer_def inv_defs)

lemmas sess_eval = step_def returnStatsPromise_def onOpen_def send_all_eq open_frames_def onClose_def
  onError_def fail_def clear_timer_def Let_def onMessage_def split_frame_def gotPacket_def cmd_of_def
  maybeWriteJSON_def succeed_def close_def new_session_def

section \<open>Properties of a client\<close>



text \<open>
  C2 (one verdict per client): a client gives at most one verdict: the promises settled
  other than by the rejection of a late call, with the verdict parked for a later call,
  number exactly one once the client has completed and none before.
\<close>

theorem single_verdict:
  assumes "reach ex t s"
  shows "real_count s = (if completed s then 1 else 0)"
  using reach_client_inv [OF assms] by (simp add: client_inv_def sess_inv_def)

theorem single_verdict_witness:
  "reach ex0 tbl_init (run ex0 (new_session tbl_init) [EvAwait, EvOpen, EvClose 1006 [], EvAwait]) \<and>
   real_count (run ex0 (new_session tbl_init) [EvAwait, EvOpen, EvClose 1006 [], EvAwait]) = 1"
proof -
  have h: "reach ex0 tbl_init (run ex0 (new_session tbl_init) [EvAwait, EvOpen, EvClose 1006 [], EvAwait])"
    by (rule reach_run [OF reach.init])
  have c: "completed (run ex0 (new_session tbl_init) [EvAwait, EvOpen, EvClose 1006 [], EvAwait])"
    by (simp add: new_session_def step_def returnStatsPromise_def onOpen_def send_all_eq open_frames_def
        onClose_def fail_def clear_timer_def Let_def)
  show ?thesis using h single_verdict [OF h] c by simp
qed

text \<open>
  C4 (success needs both packets): a client resolves a promise with stats, or parks stats
  for a later call, only after it has decoded both a leaderboard and a minimap.
\<close>

theorem success_needs_both:
  assumes "reach ex t s" "(k, Inr p) \<in> set (settled s) \<or> pend_ok s = Some p"
  shows "lbd s \<noteq> None \<and> mmap s \<noteq> None"
proof -
  have "success_seen s" using assms(2) by (fastforce simp: success_seen_def list_ex_iff)
  then show ?thesis using reach_client_inv [OF assms(1)] by (simp add: client_inv_def sess_inv_def)
qed

text \<open>
  The socket is released: once a client has completed its socket is closing or closed,
  never open or connecting; and a client whose socket has closed has completed.
\<close>

theorem completed_closes:
  assumes "reach ex t s"
  shows "(completed s \<longrightarrow> ws s \<noteq> Some OPEN \<and> ws s \<noteq> Some CONNECTING) \<and> (ws s = None \<longrightarrow> completed s)"
  using reach_client_inv [OF assms] by (simp add: client_inv_def sess_inv_def inv_closed_def)

text \<open>
  The stats timeout always answers: in every reachable state where a caller waits on
  promise \<open>k\<close>, its timer is armed, and when it fires the promise is rejected with the
  timeout error and the client completes.
\<close>

theorem timeout_settles:
  assumes "reach ex t s" "waiting s = Some k"
  shows "settled (step ex s (EvTimer k)) = settled s @ [(k, Inl Timeout)] \<and> completed (step ex s (EvTimer k))"
proof -
  have i: "client_inv s" by (rule reach_client_inv [OF assms(1)])
  from timer_fires [OF i assms(2)] have "step ex s (EvTimer k) = fail Timeout (s\<lparr>timers := remove1 k (timers s)\<rparr>)"
    and "\<not> completed s" by simp_all
  then show ?thesis using assms(2) by (simp add: fail_eq)
qed


theorem success_needs_both_witness:
  "reach ex0 tbl_init (run ex0 (new_session tbl_init) [EvOpen, EvMessage [108, 0, 0, 0, 0, 0] env0, EvMessage [77, 0, 1] env0]) \<and>
   ((0, Inr (the (pend_ok (run ex0 (new_session tbl_init) [EvOpen, EvMessage [108, 0, 0, 0, 0, 0] env0, EvMessage [77, 0, 1] env0]))))
      \<in> set (settled (run ex0 (new_session tbl_init) [EvOpen, EvMessage [108, 0, 0, 0, 0, 0] env0, EvMessage [77, 0, 1] env0])) \<or>
    pend_ok (run ex0 (new_session tbl_init) [EvOpen, EvMessage [108, 0, 0, 0, 0, 0] env0, EvMessage [77, 0, 1] env0]) =
      Some (the (pend_ok (run ex0 (new_session tbl_init) [EvOpen, EvMessage [108, 0, 0, 0, 0, 0] env0, EvMessage [77, 0, 1] env0])))) \<and>
   lbd (run ex0 (new_session tbl_init) [EvOpen, EvMessage [108, 0, 0, 0, 0, 0] env0, EvMessage [77, 0, 1] env0]) \<noteq> None \<and>
   mmap (run ex0 (new_session tbl_init) [EvOpen, EvMessage [108, 0, 0, 0, 0, 0] env0, EvMessage [77, 0, 1] env0]) \<noteq> None"
proof -
  define s where "s = run ex0 (new_session tbl_init) [EvOpen, EvMessage [108, 0, 0, 0, 0, 0] env0, EvMessage [77, 0, 1] env0]"
  have h: "reach ex0 tbl_init s" unfolding s_def by (rule reach_run [OF reach.init])
  have p: "pend_ok s \<noteq> None" by (simp add: s_def sess_eval)
  then have h2: "(0, Inr (the (pend_ok s))) \<in> set (settled s) \<or> pend_ok s = Some (the (pend_ok s))" by auto
  show ?thesis using h h2 success_needs_both [OF h h2] unfolding s_def [symmetric] by blast
qed

theorem completed_closes_witness:
  "reach ex0 tbl_init (run ex0 (new_session tbl_init) [EvOpen, EvError []]) \<and>
   ws (run ex0 (new_session tbl_init) [EvOpen, EvError []]) \<noteq> Some OPEN"
proof -
  have h: "reach ex0 tbl_init (run ex0 (new_session tbl_init) [EvOpen, EvError []])"
    by (rule reach_run [OF reach.init])
  have c: "completed (run ex0 (new_session tbl_init) [EvOpen, EvError []])" by (simp add: sess_eval)
  show ?thesis using h c completed_closes [OF h] by simp
qed

theorem timeout_settles_witness:
  "reach ex0 tbl_init (run ex0 (new_session tbl_init) [EvOpen, EvAwait]) \<and>
   waiting (run ex0 (new_session tbl_init) [EvOpen, EvAwait]) = Some 0 \<and>
   settled (step ex0 (run ex0 (new_session tbl_init) [EvOpen, EvAwait]) (EvTimer 0)) = [(0, Inl Timeout)]"
proof -
  have h: "reach ex0 tbl_init (run ex0 (new_session tbl_init) [EvOpen, EvAwait])"
    by (rule reach_run [OF reach.init])
  have w: "waiting (run ex0 (new_session tbl_init) [EvOpen, EvAwait]) = Some 0"
    and e: "settled (run ex0 (new_session tbl_init) [EvOpen, EvAwait]) = []" by (simp_all add: sess_eval)
  show ?thesis using h w timeout_settles [OF h w] e by simp
qed




lemma split_frame_single: "32 \<le> uint c \<Longrightarrow> split_frame (c # a) = [c # a]"
  by (simp add: split_frame_def)

lemma gotPacket_lb:
  "gotPacket ex env s (108 # l) = maybeWriteJSON (env_now env) (s\<lparr>lbd := Some (got_leaderboard (tbl s) (108 # l))\<rparr>)"
  by (simp add: gotPacket_def cmd_of_def)

lemma gotPacket_mm:
  "gotPacket ex env s (77 # m) = maybeWriteJSON (env_now env) (s\<lparr>mmap := Some (got_minimap (77 # m))\<rparr>)"
  by (simp add: gotPacket_def cmd_of_def)

lemma step_message_single:
  assumes "ws s = Some OPEN" "32 \<le> uint c"
  shows "step ex s (EvMessage (c # a) env) = gotPacket ex env s (c # a)"
proof -
  have "onMessage ex env s (c # a) = gotPacket ex env s (c # a)"
    using assms(2) by (simp only: onMessage_def split_frame_single foldl_Cons foldl_Nil)
  then show ?thesis using assms(1) by (simp add: step_def)
qed
text \<open>
  C11 (leaderboard and minimap in either order): a client that waits for its stats, with
  an open socket and neither packet decoded yet, resolves the waiting promise with the
  same stats whether the leaderboard message or the minimap message arrives first; the
  timestamp is that of the second message.
\<close>

theorem lb_minimap_order:
  assumes "waiting s = Some k" "\<not> completed s" "ws s = Some OPEN" "lbd s = None" "mmap s = None"
  shows "settled (run ex s [EvMessage (108 # l) e1, EvMessage (77 # m) e2]) =
           settled s @ [(k, Inr \<lparr>p_lb = got_leaderboard (tbl s) (108 # l), p_minimap = got_minimap (77 # m),
                                  p_time = env_now e2\<rparr>)] \<and>
         settled (run ex s [EvMessage (77 # m) e1, EvMessage (108 # l) e2]) =
           settled s @ [(k, Inr \<lparr>p_lb = got_leaderboard (tbl s) (108 # l), p_minimap = got_minimap (77 # m),
                                  p_time = env_now e2\<rparr>)]"
proof -
  define L where "L = got_leaderboard (tbl s) (108 # l)"
  define M where "M = got_minimap (77 # m)"
  have u: "32 \<le> uint (108 :: byte)" "32 \<le> uint (77 :: byte)" by simp_all
  have l1: "step ex s (EvMessage (108 # l) e1) = s\<lparr>lbd := Some L\<rparr>"
    using assms by (simp add: step_message_single [OF _ u(1)] gotPacket_lb maybeWriteJSON_def L_def)
  have m1: "step ex s (EvMessage (77 # m) e1) = s\<lparr>mmap := Some M\<rparr>"
    using assms by (simp add: step_message_single [OF _ u(2)] gotPacket_mm maybeWriteJSON_def M_def)
  have l2: "settled (step ex (s\<lparr>lbd := Some L\<rparr>) (EvMessage (77 # m) e2)) =
     settled s @ [(k, Inr \<lparr>p_lb = L, p_minimap = M, p_time = env_now e2\<rparr>)]"
    using assms by (simp add: step_message_single [OF _ u(2)] gotPacket_mm maybeWriteJSON_def succeed_eq M_def)
  have m2: "settled (step ex (s\<lparr>mmap := Some M\<rparr>) (EvMessage (108 # l) e2)) =
     settled s @ [(k, Inr \<lparr>p_lb = L, p_minimap = M, p_time = env_now e2\<rparr>)]"
    using assms by (simp add: step_message_single [OF _ u(1)] gotPacket_lb maybeWriteJSON_def succeed_eq L_def)
  show ?thesis using l1 m1 l2 m2 by (simp add: L_def M_def)
qed

theorem lb_minimap_order_witness:
  "waiting (run ex0 (new_session tbl_init) [EvOpen, EvAwait]) = Some 0 \<and>
   \<not> completed (run ex0 (new_session tbl_init) [EvOpen, EvAwait]) \<and>
   ws (run ex0 (new_session tbl_init) [EvOpen, EvAwait]) = Some OPEN \<and>
   lbd (run ex0 (new_session tbl_init) [EvOpen, EvAwait]) = None \<and>
   mmap (run ex0 (new_session tbl_init) [EvOpen, EvAwait]) = None \<and>
   settled (run ex0 (run ex0 (new_session tbl_init) [EvOpen, EvAwait])
     [EvMessage [77, 0, 1] env0, EvMessage [108, 0, 0, 0, 0, 0] env0]) =
   [(0, Inr \<lparr>p_lb = got_leaderboard tbl_init [108, 0, 0, 0, 0, 0], p_minimap = got_minimap [77, 0, 1], p_time = 0\<rparr>)]"
proof -
  define s where "s = run ex0 (new_session tbl_init) [EvOpen, EvAwait]"
  have h: "waiting s = Some 0" "\<not> completed s" "ws s = Some OPEN" "lbd s = None" "mmap s = None"
    and e: "settled s = []" "tbl s = tbl_init"
    by (simp_all add: s_def sess_eval)
  have "settled (run ex0 s [EvMessage (77 # [0, 1]) env0, EvMessage (108 # [0, 0, 0, 0, 0]) env0]) =
    [(0, Inr \<lparr>p_lb = got_leaderboard tbl_init [108, 0, 0, 0, 0, 0], p_minimap = got_minimap [77, 0, 1], p_time = 0\<rparr>)]"
    using lb_minimap_order [OF h, of ex0 "[0, 0, 0, 0, 0]" env0 "[0, 1]" env0] e by (simp add: env0_def)
  then show ?thesis using h unfolding s_def [symmetric] by simp
qed

text \<open>
  C12 (the handshake reply): on an open socket, a version packet whose challenge gives the
  secret copy no error makes the client send the transformed identifier and then the
  28-byte \<^verbatim>\<open>clientInit\<close> frame, and keep the transformed identifier.
\<close>

theorem handshake_reply:
  assumes "ws s = Some OPEN" "ex (decode_challenge (map unat c)) = (str, cnt)"
    "copy_secret (env_rid env) str cnt = Inr i1"
  shows "sent (step ex s (EvMessage (54 # c) env)) = sent s @ [transform_id i1, clientInit (env_cv env)] \<and>
         idba (step ex s (EvMessage (54 # c) env)) = transform_id i1 \<and>
         settled (step ex s (EvMessage (54 # c) env)) = settled s"
proof -
  have u: "32 \<le> uint (54 :: byte)" by simp
  have "gotPacket ex env s (54 # c) = send_all [transform_id i1, clientInit (env_cv env)] (s\<lparr>idba := transform_id i1\<rparr>)"
    using assms(2,3) by (simp add: gotPacket_def cmd_of_def gotServerVersion_def isValidVersion_def
      range_check_def js_length_def packet_text_def)
  then show ?thesis using assms(1) by (simp add: step_message_single [OF _ u] send_all_eq)
qed

theorem handshake_reply_witness:
  "ws (run ex0 (new_session tbl_init) [EvOpen]) = Some OPEN \<and>
   ex0 (decode_challenge (map unat [1, 2 :: byte])) = (None, None) \<and>
   copy_secret (env_rid env0) None None = Inr (replicate 27 65) \<and>
   sent (step ex0 (run ex0 (new_session tbl_init) [EvOpen]) (EvMessage [54, 1, 2] env0)) =
     [[1], [99, 0], transform_id (replicate 27 65), clientInit 0]"
proof -
  have h: "ws (run ex0 (new_session tbl_init) [EvOpen]) = Some OPEN"
    "ex0 (decode_challenge (map unat [1, 2 :: byte])) = (None, None)"
    "copy_secret (env_rid env0) None None = Inr (replicate 27 65)"
    by (simp_all add: sess_eval ex0_def copy_secret_def env0_def)
  have s: "sent (run ex0 (new_session tbl_init) [EvOpen]) = [[1], [99, 0]]" by (simp add: sess_eval)
  show ?thesis using h handshake_reply [where c = "[1, 2]" and ex = ex0 and env = env0 and str = None and cnt = None, OF h] s by (simp add: env0_def)
qed

text \<open>
  C29 (a thrown handshake leaves the client hanging): when the challenge yields a loop bound
  but no secret string, the version packet's handler throws inside the \<^verbatim>\<open>async\<close>
  \<^verbatim>\<open>gotPacket\<close>: the rejection is unhandled, nothing is sent and no promise settles,
  so the client only ends by its timeout or the server closing the socket.
\<close>

theorem handshake_throw_unhandled:
  assumes "ws s = Some OPEN" "ex (decode_challenge (map unat c)) = (None, Some n)" "0 < n"
  shows "unhandled (step ex s (EvMessage (54 # c) env)) = Suc (unhandled s) \<and>
         sent (step ex s (EvMessage (54 # c) env)) = sent s \<and>
         settled (step ex s (EvMessage (54 # c) env)) = settled s \<and>
         completed (step ex s (EvMessage (54 # c) env)) = completed s"
proof -
  have u: "32 \<le> uint (54 :: byte)" by simp
  have "gotPacket ex env s (54 # c) = s\<lparr>idba := env_rid env, unhandled := Suc (unhandled s)\<rparr>"
    using assms(2,3) by (simp add: gotPacket_def cmd_of_def gotServerVersion_def isValidVersion_def
      copy_secret_def packet_text_def)
  then show ?thesis using assms(1) by (simp add: step_message_single [OF _ u])
qed

theorem handshake_throw_unhandled_witness:
  "ws (run ex0 (new_session tbl_init) [EvOpen]) = Some OPEN \<and>
   (\<lambda>_. (None, Some 27)) (decode_challenge (map unat [1, 2 :: byte])) = (None, Some (27::nat)) \<and> 0 < (27::nat) \<and>
   unhandled (step (\<lambda>_. (None, Some 27)) (run ex0 (new_session tbl_init) [EvOpen]) (EvMessage [54, 1, 2] env0)) = 1"
proof -
  have h: "ws (run ex0 (new_session tbl_init) [EvOpen]) = Some OPEN"
    "(\<lambda>_. (None, Some 27)) (decode_challenge (map unat [1, 2 :: byte])) = (None, Some (27::nat))" "0 < (27::nat)"
    by (simp_all add: sess_eval)
  have z: "unhandled (run ex0 (new_session tbl_init) [EvOpen]) = 0" by (simp add: sess_eval)
  show ?thesis using h z handshake_throw_unhandled [where c = "[1, 2]" and env = env0, OF h] by simp
qed


text \<open>
  C30 (clients share the score table): the score table is module state. When client 0 has
  configured \<open>na\<close> segments and client 1 then configures a different count \<open>nb\<close>, the
  leaderboard client 0 decodes next is scored with the table for \<open>nb\<close>.
\<close>

theorem shared_score_table:
  assumes "ws sa = Some OPEN" "ws sb = Some OPEN" "mmap sa = None"
    "nat (be16 (97 # xa) 4) = na" "nat (be16 (97 # xb) 4) = nb" "na \<noteq> nb"
  shows "lbd (snd (sys_run ex (t, [sa, sb]) [(0, EvMessage (97 # xa) e), (Suc 0, EvMessage (97 # xb) e),
                                           (0, EvMessage (108 # l) e)]) ! 0)
         = Some (got_leaderboard (build_table nb) (108 # l))"
proof -
  have u: "32 \<le> uint (97 :: byte)" "32 \<le> uint (108 :: byte)" by simp_all
  have a: "gotPacket ex e s (97 # x) = s\<lparr>tbl := got_arena (97 # x) (tbl s)\<rparr>" for s x
    by (simp add: gotPacket_def cmd_of_def)
  have t: "got_arena (97 # xb) (got_arena (97 # xa) t) = build_table nb"
    using assms(4-6) by (simp add: got_arena_def setMscps_def)
  show ?thesis
    using assms(1-3) t
    by (simp add: sys_run_def sys_step_def step_message_single [OF _ u(1)] step_message_single [OF _ u(2)]
        a gotPacket_lb maybeWriteJSON_def)
qed

theorem shared_score_table_witness:
  "ws (run ex0 (new_session tbl_init) [EvOpen]) = Some OPEN \<and>
   mmap (run ex0 (new_session tbl_init) [EvOpen]) = None \<and>
   nat (be16 [97, 0, 0, 0, 0, 5] 4) = 5 \<and> nat (be16 [97, 0, 0, 0, 0, 7] 4) = 7 \<and> (5::nat) \<noteq> 7 \<and>
   lbd (snd (sys_run ex0 (tbl_init, [run ex0 (new_session tbl_init) [EvOpen], run ex0 (new_session tbl_init) [EvOpen]])
     [(0, EvMessage [97, 0, 0, 0, 0, 5] env0), (Suc 0, EvMessage [97, 0, 0, 0, 0, 7] env0),
      (0, EvMessage [108, 0, 0, 0, 0, 0] env0)]) ! 0)
   = Some (got_leaderboard (build_table 7) [108, 0, 0, 0, 0, 0])"
proof -
  define s where "s = run ex0 (new_session tbl_init) [EvOpen]"
  have h: "ws s = Some OPEN" "ws s = Some OPEN" "mmap s = None"
    "nat (be16 (97 # [0, 0, 0, 0, 5]) 4) = 5" "nat (be16 (97 # [0, 0, 0, 0, 7]) 4) = 7" "(5::nat) \<noteq> 7"
    by (simp_all add: s_def sess_eval be16_def byte_at_def)
  show ?thesis using h shared_score_table [OF h, of ex0 tbl_init env0 "[0, 0, 0, 0, 0]"]
    unfolding s_def [symmetric] by simp
qed

end
