(* ===== verification/Orchestrator.thy ===== *)
theory Orchestrator
  imports Session DirectoryDecoder
begin

text \<open>
  Model of the collection of one server (\<^verbatim>\<open>src/index.js\<close>, lines 37--102): the proxy draw
  (\<^verbatim>\<open>drawProxy\<close>, with \<^verbatim>\<open>getRandomProxy\<close> of \<^verbatim>\<open>src/getProxies.js\<close>), the IPv6 literal
  test and \<^verbatim>\<open>collectStatsWithProxies\<close> with its bounded retry loop and direct IPv6
  fallback. A proxy is any value of type \<open>'p\<close>; the outcome of one attempt, the value the
  awaited \<^verbatim>\<open>returnStatsPromise\<close> settles with, is given by a function \<open>att\<close> of the proxy
  used (\<open>None\<close> for the direct connection), of the type \<open>outcome\<close> of the client model.
  The random numbers of the draws are a list \<open>rs\<close> of indices.
\<close>

definition PROXY_RETRY_LIMIT :: nat where
  "PROXY_RETRY_LIMIT = 3"

text \<open>\<^verbatim>\<open>getRandomProxy\<close> (\<^verbatim>\<open>src/getProxies.js\<close>, lines 66--70): the entry at
  \<^verbatim>\<open>Math.floor(Math.random() * length)\<close>, any index below the length, here \<open>r mod length\<close>.\<close>

definition getRandomProxy :: "'p list \<Rightarrow> nat \<Rightarrow> 'p option" where
  "getRandomProxy pool r = (if pool = [] then None else Some (pool ! (r mod length pool)))"

text \<open>\<^verbatim>\<open>drawProxy\<close>, lines 37--46: the drawn proxy is removed by \<^verbatim>\<open>indexOf\<close> and
  \<^verbatim>\<open>splice\<close>, i.e. its first occurrence.\<close>

definition drawProxy :: "'p list \<Rightarrow> nat \<Rightarrow> 'p option \<times> 'p list" where
  "drawProxy pool r =
     (case getRandomProxy pool r of None \<Rightarrow> (None, pool) | Some p \<Rightarrow> (Some p, remove1 p pool))"

text \<open>\<^verbatim>\<open>isIPv6Literal\<close>, lines 48--50: \<^verbatim>\<open>/^\[[0-9a-fA-F:]+\]$/\<close>.\<close>

definition hex_or_colon :: "char \<Rightarrow> bool" where
  "hex_or_colon c \<longleftrightarrow> c \<in> set ''0123456789abcdefABCDEF:''"

definition isIPv6Literal :: "string \<Rightarrow> bool" where
  "isIPv6Literal addr \<longleftrightarrow>
     3 \<le> length addr \<and> hd addr = CHR ''['' \<and> last addr = CHR '']'' \<and> list_all hex_or_colon (butlast (tl addr))"

text \<open>The error \<^verbatim>\<open>collectStatsWithProxies\<close> throws: the last attempt's error, its
  message prefixed with the number of proxy attempts (line 97), or the error for a server
  no attempt was made for (line 101).\<close>

datatype coll_error = Exhausted nat sess_error | NoProxies string

text \<open>The \<^verbatim>\<open>while\<close> loop of lines 59--80: the result of the first successful attempt,
  the number of proxy attempts, the last error and the trace of the connections made.\<close>

function proxy_loop ::
  "('p option \<Rightarrow> outcome) \<Rightarrow> nat list \<Rightarrow> 'p list \<Rightarrow> nat \<Rightarrow> sess_error option \<Rightarrow> 'p option list
     \<Rightarrow> payload option \<times> nat \<times> sess_error option \<times> 'p option list" where
  "proxy_loop att rs avail attempt lerr tr =
     (if attempt < PROXY_RETRY_LIMIT \<and> avail \<noteq> [] then
        (case drawProxy avail (case rs of [] \<Rightarrow> 0 | r # _ \<Rightarrow> r) of
           (None, _) \<Rightarrow> (None, attempt, lerr, tr)
         | (Some px, avail') \<Rightarrow>
             (case att (Some px) of
                Inr st \<Rightarrow> (Some st, Suc attempt, lerr, tr @ [Some px])
              | Inl e \<Rightarrow> proxy_loop att (tl rs) avail' (Suc attempt) (Some e) (tr @ [Some px])))
      else (None, attempt, lerr, tr))"
  by pat_completeness auto
termination
  by (relation "measure (\<lambda>(att, rs, avail, attempt, lerr, tr). PROXY_RETRY_LIMIT - attempt)") auto

declare proxy_loop.simps [simp del]

definition server_key :: "server \<Rightarrow> string" where
  "server_key sv = ip sv @ '':'' @ (if po sv < 0 then ''-'' else []) @ radix_string 10 (nat \<bar>po sv\<bar>)"

text \<open>\<^verbatim>\<open>collectStatsWithProxies\<close>, lines 52--102: the stats or the error, and the trace of
  the connections made (a proxy, or \<open>None\<close> for the direct IPv6 attempt).\<close>

definition collectStatsWithProxies ::
  "('p option \<Rightarrow> outcome) \<Rightarrow> nat list \<Rightarrow> server \<Rightarrow> 'p list \<Rightarrow> (coll_error + payload) \<times> 'p option list" where
  "collectStatsWithProxies att rs sv proxies =
     (case proxy_loop att rs proxies 0 None [] of
        (Some st, _, _, tr) \<Rightarrow> (Inr st, tr)
      | (None, attempt, lerr, tr) \<Rightarrow>
          (let (direct, lerr', tr') =
                 (if isIPv6Literal (ip sv) then
                    (case att None of Inr st \<Rightarrow> (Some st, lerr, tr @ [None])
                     | Inl e \<Rightarrow> (None, Some e, tr @ [None]))
                  else (None, lerr, tr))
           in case direct of Some st \<Rightarrow> (Inr st, tr')
              | None \<Rightarrow> (case lerr' of Some e \<Rightarrow> (Inl (Exhausted attempt e), tr')
                         | None \<Rightarrow> (Inl (NoProxies (server_key sv)), tr'))))"

text \<open>What the retry loop guarantees of the proxies \<open>ps\<close> it tried, in order, from the
  pool \<open>avail\<close> with \<open>n\<close> attempts already made: at most the remaining budget, drawn from
  the pool without reuse, every attempt but the last failed; the stats of the last one
  when it succeeded, otherwise the budget or the pool exhausted and the last error kept.\<close>

definition loop_ok :: "('p option \<Rightarrow> outcome) \<Rightarrow> 'p list \<Rightarrow> nat \<Rightarrow> sess_error option \<Rightarrow>
    payload option \<Rightarrow> sess_error option \<Rightarrow> 'p list \<Rightarrow> bool" where
  "loop_ok att avail n lerr res lerr' ps \<longleftrightarrow>
     length ps \<le> PROXY_RETRY_LIMIT - n \<and> set ps \<subseteq> set avail \<and> (distinct avail \<longrightarrow> distinct ps) \<and>
     list_all (\<lambda>p. isl (att (Some p))) (butlast ps) \<and>
     (case res of
        Some st \<Rightarrow> ps \<noteq> [] \<and> att (Some (last ps)) = Inr st
      | None \<Rightarrow> list_all (\<lambda>p. isl (att (Some p))) ps \<and> length ps = min (PROXY_RETRY_LIMIT - n) (length avail) \<and>
                lerr' = (if ps = [] then lerr else Some (projl (att (Some (last ps))))))"

section \<open>The retry loop\<close>

lemma drawProxy_nonempty:
  "avail \<noteq> [] \<Longrightarrow> \<exists>px. drawProxy avail r = (Some px, remove1 px avail) \<and> px \<in> set avail"
  by (simp add: drawProxy_def getRandomProxy_def)

lemma proxy_loop_trace:
  "\<exists>ps. snd (snd (snd (proxy_loop att rs avail n lerr tr))) = tr @ map Some ps \<and>
        fst (snd (proxy_loop att rs avail n lerr tr)) = n + length ps \<and>
        loop_ok att avail n lerr (fst (proxy_loop att rs avail n lerr tr))
          (fst (snd (snd (proxy_loop att rs avail n lerr tr)))) ps"
proof (induction "PROXY_RETRY_LIMIT - n" arbitrary: n rs avail lerr tr rule: less_induct)
  case less
  show ?case
  proof (cases "n < PROXY_RETRY_LIMIT \<and> avail \<noteq> []")
    case False
    then have "proxy_loop att rs avail n lerr tr = (None, n, lerr, tr)"
      by (subst proxy_loop.simps) (simp only: if_False)
    moreover have "min (PROXY_RETRY_LIMIT - n) (length avail) = 0" using False by auto
    ultimately show ?thesis by (intro exI [of _ "[]"]) (simp add: loop_ok_def)
  next
    case True
    define r where "r = (case rs of [] \<Rightarrow> 0 | r # _ \<Rightarrow> r)"
    obtain px where d: "drawProxy avail r = (Some px, remove1 px avail)" and px: "px \<in> set avail"
      using drawProxy_nonempty True by blast
    show ?thesis
    proof (cases "att (Some px)")
      case (Inr st)
      then have "proxy_loop att rs avail n lerr tr = (Some st, Suc n, lerr, tr @ [Some px])"
        using True d by (simp add: proxy_loop.simps r_def [symmetric])
      then show ?thesis using True px Inr by (intro exI [of _ "[px]"]) (auto simp: loop_ok_def)
    next
      case (Inl e)
      then have eq: "proxy_loop att rs avail n lerr tr =
          proxy_loop att (tl rs) (remove1 px avail) (Suc n) (Some e) (tr @ [Some px])"
        using True d by (simp add: proxy_loop.simps r_def [symmetric])
      have "PROXY_RETRY_LIMIT - Suc n < PROXY_RETRY_LIMIT - n" using True by (simp add: diff_less_mono2)
      from less [OF this] obtain ps where
        ih: "snd (snd (snd (proxy_loop att (tl rs) (remove1 px avail) (Suc n) (Some e) (tr @ [Some px])))) =
               (tr @ [Some px]) @ map Some ps"
          "fst (snd (proxy_loop att (tl rs) (remove1 px avail) (Suc n) (Some e) (tr @ [Some px]))) = Suc n + length ps"
          "loop_ok att (remove1 px avail) (Suc n) (Some e)
             (fst (proxy_loop att (tl rs) (remove1 px avail) (Suc n) (Some e) (tr @ [Some px])))
             (fst (snd (snd (proxy_loop att (tl rs) (remove1 px avail) (Suc n) (Some e) (tr @ [Some px]))))) ps"
        by blast
      have sub: "set (remove1 px avail) \<subseteq> set avail" by (rule set_remove1_subset)
      have nd: "distinct avail \<Longrightarrow> px \<notin> set (remove1 px avail)" by simp
      have len: "length avail = Suc (length (remove1 px avail))"
        using px by (simp add: length_remove1) (metis Suc_pred length_pos_if_in_set)
      have pos: "0 < length avail" using True by simp
      show ?thesis
        unfolding eq
        using ih True Inl px sub nd len pos
        by (intro exI [of _ "px # ps"])
           (auto simp: loop_ok_def min_def split: option.splits if_splits)
    qed
  qed
qed
section \<open>Properties of the collection of one server\<close>

lemma proxy_loop_obtain:
  obtains res lerr' ps where "proxy_loop att rs avail 0 None [] = (res, length ps, lerr', map Some ps)"
    "loop_ok att avail 0 None res lerr' ps"
proof -
  obtain res n' lerr' tr' where e: "proxy_loop att rs avail 0 None [] = (res, n', lerr', tr')"
    by (cases "proxy_loop att rs avail 0 None []") auto
  from proxy_loop_trace [of att rs avail 0 None "[]"] e obtain ps where
    "tr' = map Some ps" "n' = length ps" "loop_ok att avail 0 None res lerr' ps" by auto
  with e that show ?thesis by simp
qed

lemma collect_eq:
  assumes "proxy_loop att rs pool 0 None [] = (res, length ps, lerr', map Some ps)"
  shows "collectStatsWithProxies att rs sv pool =
     (case res of Some st \<Rightarrow> (Inr st, map Some ps)
      | None \<Rightarrow>
          (if isIPv6Literal (ip sv) then
             (case att None of Inr st \<Rightarrow> (Inr st, map Some ps @ [None])
              | Inl e \<Rightarrow> (Inl (Exhausted (length ps) e), map Some ps @ [None]))
           else (case lerr' of Some e \<Rightarrow> (Inl (Exhausted (length ps) e), map Some ps)
                 | None \<Rightarrow> (Inl (NoProxies (server_key sv)), map Some ps))))"
  using assms by (simp add: collectStatsWithProxies_def split: option.splits sum.splits)

text \<open>
  C5 (an always-failing server): with a pool of at least three distinct proxies and a server
  every attempt on which fails, exactly three distinct proxies of the pool are tried, then
  one direct connection if and only if the address is an IPv6 literal, and the collection
  fails with the last error after three proxy attempts.
\<close>

theorem always_failing_server:
  assumes "\<forall>p. att p = Inl e" "distinct pool" "3 \<le> length pool"
  shows "\<exists>p1 p2 p3. collectStatsWithProxies att rs sv pool =
           (Inl (Exhausted 3 e), [Some p1, Some p2, Some p3] @ (if isIPv6Literal (ip sv) then [None] else [])) \<and>
           distinct [p1, p2, p3] \<and> set [p1, p2, p3] \<subseteq> set pool"
proof -
  obtain res lerr' ps where l: "proxy_loop att rs pool 0 None [] = (res, length ps, lerr', map Some ps)"
    and ok: "loop_ok att pool 0 None res lerr' ps" by (rule proxy_loop_obtain)
  have r: "res = None" using ok assms(1) by (cases res) (simp_all add: loop_ok_def)
  have len: "length ps = 3" using ok r assms(3) by (simp add: loop_ok_def PROXY_RETRY_LIMIT_def)
  then obtain p1 p2 p3 where ps: "ps = [p1, p2, p3]" by (auto simp: numeral_eq_Suc length_Suc_conv)
  have le: "lerr' = Some e" using ok r assms(1) ps by (simp add: loop_ok_def)
  have "distinct ps" "set ps \<subseteq> set pool" using ok assms(2) by (simp_all add: loop_ok_def)
  then show ?thesis using collect_eq [OF l, of sv] r le ps assms(1) by auto
qed

theorem always_failing_server_witness:
  "(\<forall>p. (\<lambda>_. Inl Timeout :: outcome) p = Inl Timeout) \<and> distinct [10, 11, 12, 13 :: nat] \<and>
   3 \<le> length [10, 11, 12, 13 :: nat] \<and>
   (\<exists>p1 p2 p3. collectStatsWithProxies (\<lambda>_. Inl Timeout) [5, 7, 1]
      \<lparr>ip = ''[2a01:4f8::1]'', po = 444, ac = 0, sid = 0, active = True, wg = 0, clu = 1000\<rparr> [10, 11, 12, 13 :: nat] =
      (Inl (Exhausted 3 Timeout), [Some p1, Some p2, Some p3, None]) \<and> distinct [p1, p2, p3] \<and> set [p1, p2, p3] \<subseteq> set [10, 11, 12, 13])"
proof -
  have h: "\<forall>p. (\<lambda>_. Inl Timeout :: outcome) p = Inl Timeout" "distinct [10, 11, 12, 13 :: nat]"
    "3 \<le> length [10, 11, 12, 13 :: nat]" by simp_all
  have v: "isIPv6Literal ''[2a01:4f8::1]''" by (simp add: isIPv6Literal_def hex_or_colon_def)
  show ?thesis using h always_failing_server [OF h, of "[5, 7, 1]"
      "\<lparr>ip = ''[2a01:4f8::1]'', po = 444, ac = 0, sid = 0, active = True, wg = 0, clu = 1000\<rparr>"] v
    by simp
qed

text \<open>
  C13 (bounded attempts without reuse): for every pool of distinct proxies and every outcome of
  the attempts, the collection of one server makes at most four connections, never through
  the same proxy twice, only through proxies of the pool, and a direct one only for an IPv6
  literal address.
\<close>

theorem collect_bounded:
  assumes "distinct pool" "collectStatsWithProxies att rs sv pool = (r, tr)"
  shows "length tr \<le> 4 \<and> distinct tr \<and> set tr \<subseteq> insert None (Some ` set pool) \<and>
         (None \<in> set tr \<longrightarrow> isIPv6Literal (ip sv))"
proof -
  obtain res lerr' ps where l: "proxy_loop att rs pool 0 None [] = (res, length ps, lerr', map Some ps)"
    and ok: "loop_ok att pool 0 None res lerr' ps" by (rule proxy_loop_obtain)
  have ps: "length ps \<le> 3" "distinct ps" "set ps \<subseteq> set pool"
    using ok assms(1) by (simp_all add: loop_ok_def PROXY_RETRY_LIMIT_def)
  have d: "distinct (map Some ps)" using ps(2) by (simp add: distinct_map)
  show ?thesis using collect_eq [OF l, of sv] assms(2) ps d
    by (auto split: option.splits sum.splits if_splits)
qed

theorem collect_bounded_witness:
  "distinct [10, 11, 12, 13 :: nat] \<and>
   collectStatsWithProxies (\<lambda>_. Inl Timeout) [5, 7, 1]
      \<lparr>ip = ''1.2.3.4'', po = 444, ac = 0, sid = 0, active = True, wg = 0, clu = 1\<rparr> [10, 11, 12, 13 :: nat] =
     (Inl (Exhausted 3 Timeout), [Some 11, Some 12, Some 13]) \<and>
   length [Some (11::nat), Some 12, Some 13] \<le> 4"
proof -
  have h: "distinct [10, 11, 12, 13 :: nat]" by simp
  have c: "collectStatsWithProxies (\<lambda>_. Inl Timeout) [5, 7, 1]
      \<lparr>ip = ''1.2.3.4'', po = 444, ac = 0, sid = 0, active = True, wg = 0, clu = 1\<rparr> [10, 11, 12, 13 :: nat] =
     (Inl (Exhausted 3 Timeout), [Some 11, Some 12, Some 13])"
    by (simp add: collectStatsWithProxies_def proxy_loop.simps PROXY_RETRY_LIMIT_def drawProxy_def
        getRandomProxy_def isIPv6Literal_def)
  show ?thesis using h c collect_bounded [OF h c] by simp
qed

text \<open>
  C7 (the collection stops at the first success): the collection refines the spec's
  contract: every connection but the last of the trace failed; the stats returned are those
  of the last connection; and a failed collection made no successful connection.
\<close>

theorem collect_first_success:
  assumes "collectStatsWithProxies att rs sv pool = (r, tr)"
  shows "list_all (\<lambda>x. isl (att x)) (butlast tr) \<and>
         (case r of Inr st \<Rightarrow> tr \<noteq> [] \<and> att (last tr) = Inr st | Inl _ \<Rightarrow> list_all (\<lambda>x. isl (att x)) tr)"
proof -
  obtain res lerr' ps where l: "proxy_loop att rs pool 0 None [] = (res, length ps, lerr', map Some ps)"
    and ok: "loop_ok att pool 0 None res lerr' ps" by (rule proxy_loop_obtain)
  have b: "list_all (\<lambda>x. isl (att x)) (butlast (map Some ps))"
    using ok by (simp add: loop_ok_def map_butlast [symmetric] list_all_iff)
  show ?thesis
  proof (cases res)
    case (Some st)
    then have "ps \<noteq> []" "att (Some (last ps)) = Inr st" using ok by (simp_all add: loop_ok_def)
    then show ?thesis using collect_eq [OF l, of sv] assms b Some by (simp add: last_map)
  next
    case None
    then have f: "list_all (\<lambda>x. isl (att x)) (map Some ps)" using ok by (simp add: loop_ok_def list_all_iff)
    then show ?thesis using collect_eq [OF l, of sv] assms None b
      by (auto split: option.splits sum.splits if_splits)
  qed
qed

theorem collect_first_success_witness:
  "collectStatsWithProxies (\<lambda>_. Inl Timeout) [5, 7, 1]
      \<lparr>ip = ''1.2.3.4'', po = 444, ac = 0, sid = 0, active = True, wg = 0, clu = 1\<rparr> [10, 11, 12, 13 :: nat] =
     (Inl (Exhausted 3 Timeout), [Some 11, Some 12, Some 13]) \<and>
   list_all (\<lambda>x. isl ((\<lambda>_. Inl Timeout :: outcome) x)) [Some (11::nat), Some 12, Some 13]"
proof -
  have c: "collectStatsWithProxies (\<lambda>_. Inl Timeout) [5, 7, 1]
      \<lparr>ip = ''1.2.3.4'', po = 444, ac = 0, sid = 0, active = True, wg = 0, clu = 1\<rparr> [10, 11, 12, 13 :: nat] =
     (Inl (Exhausted 3 Timeout), [Some 11, Some 12, Some 13])"
    by (simp add: collectStatsWithProxies_def proxy_loop.simps PROXY_RETRY_LIMIT_def drawProxy_def
        getRandomProxy_def isIPv6Literal_def)
  show ?thesis using c collect_first_success [OF c] by simp
qed
end
