(* ===== verification/Refresh.thy ===== *)
theory Refresh
  imports Orchestrator "HOL-Library.AList"
begin

text \<open>
  Model of the refresh cycle of \<^verbatim>\<open>src/index.js\<close>: \<^verbatim>\<open>refreshStats\<close> (lines 120--194) with
  the module state \<^verbatim>\<open>latestStats\<close> and \<^verbatim>\<open>isRefreshing\<close> (lines 22--23), and the list the
  \<^verbatim>\<open>/stats\<close> route returns (lines 242--271). \<^verbatim>\<open>latestStats\<close> is an object keyed by
  \<^verbatim>\<open>ip:port\<close>; its keys are not integer-like, so its entries keep insertion order, and
  it is an association list updated by \<open>AList.update\<close> (an existing key keeps its place)
  and \<open>AList.delete\<close>. A cycle launches one task per server; the tasks run concurrently
  and complete in any order, each an event \<open>TaskDone i\<close> for the \<open>i\<close>-th pending task.
  The result of a task is that of \<open>collectStatsWithProxies\<close> for its server, with the
  attempt outcomes \<open>att sv\<close> and the random draws \<open>rs sv\<close> of that server. The proxy list
  and the seed list are inputs of the call (\<^verbatim>\<open>getProxies\<close> and \<^verbatim>\<open>loadServerSeeds\<close> read
  files; a missing or invalid seed file is the empty list), as is the directory fetch.
  The geo fields of an entry (\<^verbatim>\<open>lookupGeo\<close>, an external database) are not modelled.
\<close>

text \<open>The entry stored for a server, lines 157--173: \<^verbatim>\<open>...stats\<close> comes last, so its
  \<^verbatim>\<open>timestamp\<close> replaces the one written before it.\<close>

record stat_entry =
  e_ip :: string
  e_port :: int
  e_cluster :: int
  e_stats :: payload

type_synonym store = "(string \<times> stat_entry) list"

definition mk_entry :: "server \<Rightarrow> payload \<Rightarrow> stat_entry" where
  "mk_entry sv st = \<lparr>e_ip = ip sv, e_port = po sv, e_cluster = clu sv, e_stats = st\<rparr>"

text \<open>The end of one task, lines 155--180: the entry is written on success and deleted on
  failure.\<close>

definition record_result :: "store \<Rightarrow> string \<times> server \<times> (coll_error + payload) \<Rightarrow> store" where
  "record_result S t =
     (case t of (k, sv, Inr st) \<Rightarrow> AList.update k (mk_entry sv st) S
      | (k, sv, Inl _) \<Rightarrow> AList.delete k S)"

record cycle =
  busy :: bool
  store :: store
  tasks :: "(string \<times> server \<times> (coll_error + payload)) list"

datatype cyc_event = RefreshCall "server list" "fetch_error + nat list" | TaskDone nat

text \<open>The start of \<^verbatim>\<open>refreshStats\<close>, lines 121--183: a call while a cycle runs is
  dropped; without proxies, or without servers from the seeds or the directory, the cycle
  ends at once (the \<^verbatim>\<open>finally\<close> clears the flag it set).\<close>

definition refresh_start ::
  "(server \<Rightarrow> 'p option \<Rightarrow> outcome) \<Rightarrow> (server \<Rightarrow> nat list) \<Rightarrow> 'p list \<Rightarrow> server list \<Rightarrow>
     fetch_error + nat list \<Rightarrow> cycle \<Rightarrow> cycle" where
  "refresh_start att rs proxies seeds feed c =
     (if busy c then c
      else if proxies = [] then c
      else (let servers = (if seeds \<noteq> [] then seeds else getActiveServers feed) in
            if servers = [] then c
            else c\<lparr>busy := True,
                   tasks := map (\<lambda>sv. (server_key sv, sv, fst (collectStatsWithProxies (att sv) (rs sv) sv proxies)))
                              servers\<rparr>))"

text \<open>The completion of the \<open>i\<close>-th pending task; the flag is cleared when the last one
  has settled (\<^verbatim>\<open>Promise.allSettled\<close>, then \<^verbatim>\<open>finally\<close>, lines 185--193).\<close>

definition task_done :: "nat \<Rightarrow> cycle \<Rightarrow> cycle" where
  "task_done i c =
     (if i < length (tasks c) then
        (let ts = take i (tasks c) @ drop (Suc i) (tasks c)
         in c\<lparr>busy := (ts \<noteq> []), store := record_result (store c) (tasks c ! i), tasks := ts\<rparr>)
      else c)"

definition cyc_step ::
  "(server \<Rightarrow> 'p option \<Rightarrow> outcome) \<Rightarrow> (server \<Rightarrow> nat list) \<Rightarrow> 'p list \<Rightarrow> cycle \<Rightarrow> cyc_event \<Rightarrow> cycle" where
  "cyc_step att rs proxies c ev =
     (case ev of RefreshCall seeds feed \<Rightarrow> refresh_start att rs proxies seeds feed c
      | TaskDone i \<Rightarrow> task_done i c)"

inductive cyc_reach :: "(server \<Rightarrow> 'p option \<Rightarrow> outcome) \<Rightarrow> (server \<Rightarrow> nat list) \<Rightarrow> 'p list \<Rightarrow> cycle \<Rightarrow> bool"
  for att rs proxies where
  init: "cyc_reach att rs proxies \<lparr>busy = False, store = [], tasks = []\<rparr>"
| step: "cyc_reach att rs proxies c \<Longrightarrow> cyc_reach att rs proxies (cyc_step att rs proxies c ev)"

text \<open>The \<^verbatim>\<open>/stats\<close> route, lines 242--271, after the optional awaited refresh: the 202
  answer with the interval when no entry is stored, else the interval, \<^verbatim>\<open>serverCount\<close>,
  \<^verbatim>\<open>onlineViewers\<close> (the module's \<^verbatim>\<open>viewerCount\<close>, an argument here) and the
  entries in order. The store never holds \<^verbatim>\<open>null\<close> (a failure deletes the key), so the
  filter of line 253 keeps every entry. \<^verbatim>\<open>testMode\<close> is the constant \<open>False\<close> and
  \<^verbatim>\<open>updatedAt\<close> the clock, neither kept.\<close>

definition REFRESH_INTERVAL :: nat where
  "REFRESH_INTERVAL = 120000"

datatype stats_resp = Collecting nat | StatsList nat nat int "stat_entry list"

definition stats_response :: "store \<Rightarrow> int \<Rightarrow> stats_resp" where
  "stats_response S viewerCount =
     (let list = map snd S in
      if list = [] then Collecting (REFRESH_INTERVAL div 1000)
      else StatsList (REFRESH_INTERVAL div 1000) (length list) viewerCount list)"

text \<open>The spec's contract for a cycle (section 4.5): each server's key ends with the
  snapshot of its collection, or none if it failed; other keys are untouched.\<close>

definition cycle_spec :: "(string \<times> server \<times> (coll_error + payload)) list \<Rightarrow> store \<Rightarrow> string \<Rightarrow> stat_entry option" where
  "cycle_spec ts S k =
     (case map_of ts k of
        Some (sv, Inr st) \<Rightarrow> Some (mk_entry sv st)
      | Some (sv, Inl _) \<Rightarrow> None
      | None \<Rightarrow> map_of S k)"

text \<open>Example values for the concrete runs below.\<close>

definition example_server :: server where
  "example_server = \<lparr>ip = ''1.2.3.4'', po = 444, ac = 0, sid = 0, active = True, wg = 0, clu = 1\<rparr>"

definition example_payload :: payload where
  "example_payload = \<lparr>p_lb = \<lparr>totalPlayers = 0, lb_rank = 0, totalScore = Some 0, leaderboard = []\<rparr>,
     p_minimap = \<lparr>mm_size = 0, mm_pixels = []\<rparr>, p_time = 0\<rparr>"

definition cyc_inv :: "cycle \<Rightarrow> bool" where
  "cyc_inv c \<longleftrightarrow> (busy c \<longleftrightarrow> tasks c \<noteq> []) \<and> distinct (map fst (store c))"

lemma map_of_record_result:
  "map_of (record_result S (k, sv, r)) = (map_of S)(k := (case r of Inr st \<Rightarrow> Some (mk_entry sv st) | Inl _ \<Rightarrow> None))"
  by (cases r) (simp_all add: record_result_def update_conv' delete_conv' fun_upd_def)

lemma distinct_record_result:
  "distinct (map fst S) \<Longrightarrow> distinct (map fst (record_result S t))"
  by (auto simp: record_result_def distinct_update distinct_delete split: prod.splits sum.splits)

lemma map_of_remove_middle:
  assumes "k0 \<notin> fst ` set xs" "k0 \<notin> fst ` set ys"
  shows "map_of (xs @ ys) k = (if k = k0 then None else map_of (xs @ (k0, v0) # ys) k)"
proof (cases "k = k0")
  case True
  have "map_of xs k0 = None" "map_of ys k0 = None" using assms by (simp_all add: map_of_eq_None_iff)
  then show ?thesis using True by (simp add: map_of_append map_add_def)
next
  case False
  then show ?thesis by (induction xs) simp_all
qed

lemma task_done_spec:
  assumes "distinct (map fst (tasks c))"
  shows "distinct (map fst (tasks (task_done i c))) \<and>
         cycle_spec (tasks (task_done i c)) (store (task_done i c)) = cycle_spec (tasks c) (store c)"
proof (cases "i < length (tasks c)")
  case False
  then show ?thesis using assms by (simp add: task_done_def)
next
  case True
  obtain k0 sv0 r0 where t: "tasks c ! i = (k0, sv0, r0)" by (cases "tasks c ! i") auto
  define xs where "xs = take i (tasks c)"
  define ys where "ys = drop (Suc i) (tasks c)"
  have split: "tasks c = xs @ (k0, sv0, r0) # ys"
    using True t unfolding xs_def ys_def by (metis id_take_nth_drop)
  have d: "distinct (map fst (xs @ (k0, sv0, r0) # ys))" using assms split by simp
  then have n: "k0 \<notin> fst ` set xs" "k0 \<notin> fst ` set ys" and dxy: "distinct (map fst (xs @ ys))" by auto
  have "map_of xs k0 = None" using n by (simp add: map_of_eq_None_iff)
  then have m0: "map_of (tasks c) k0 = Some (sv0, r0)" using split by (simp add: map_of_append map_add_def)
  have "cycle_spec (xs @ ys) (record_result (store c) (k0, sv0, r0)) k = cycle_spec (tasks c) (store c) k" for k
  proof (cases "k = k0")
    case True
    have nn: "map_of xs k0 = None" "map_of ys k0 = None" using n by (simp_all add: map_of_eq_None_iff)
    then show ?thesis using m0 True
      by (simp add: cycle_spec_def map_of_record_result map_add_def split: sum.splits)
  next
    case False
    have mm: "map_of (xs @ ys) k = map_of (tasks c) k"
      using map_of_remove_middle [OF n, of k "(sv0, r0)"] False split by simp
    have rr: "map_of (record_result (store c) (k0, sv0, r0)) k = map_of (store c) k"
      using False by (simp add: map_of_record_result)
    show ?thesis unfolding cycle_spec_def mm rr by (rule refl)
  qed
  then show ?thesis using True t dxy
    by (simp add: task_done_def Let_def fun_eq_iff xs_def [symmetric] ys_def [symmetric])
qed

section \<open>Properties of the refresh cycle\<close>

lemma cyc_inv_step: "cyc_inv c \<Longrightarrow> cyc_inv (cyc_step att rs proxies c ev)"
  by (cases ev)
     (auto simp: cyc_step_def refresh_start_def task_done_def cyc_inv_def Let_def distinct_record_result)

lemma cyc_reach_inv:
  assumes "cyc_reach att rs proxies c"
  shows "cyc_inv c"
  using assms
proof induction
  case init
  then show ?case by (simp add: cyc_inv_def)
next
  case (step c ev)
  then show ?case by (simp add: cyc_inv_step)
qed



lemma drain_spec:
  "distinct (map fst (tasks c)) \<Longrightarrow>
     distinct (map fst (tasks (foldl (\<lambda>c i. task_done i c) c ixs))) \<and>
     cycle_spec (tasks (foldl (\<lambda>c i. task_done i c) c ixs)) (store (foldl (\<lambda>c i. task_done i c) c ixs)) =
     cycle_spec (tasks c) (store c)"
proof (induction ixs arbitrary: c)
  case Nil
  then show ?case by simp
next
  case (Cons i ixs)
  from task_done_spec [OF Cons.prems, of i] Cons.IH [of "task_done i c"] show ?case by simp
qed

text \<open>
  C6 (a cycle refines the per-key contract): whatever order the tasks of a cycle complete
  in, once none is pending each server's key holds the snapshot of its collection, or no
  entry if it failed, and every other key is unchanged, provided the servers' keys are
  distinct.
\<close>

theorem cycle_refines_spec:
  assumes "distinct (map fst (tasks c))" "tasks (foldl (\<lambda>c i. task_done i c) c ixs) = []"
  shows "map_of (store (foldl (\<lambda>c i. task_done i c) c ixs)) = cycle_spec (tasks c) (store c)"
proof -
  have "cycle_spec [] S = map_of S" for S by (simp add: cycle_spec_def fun_eq_iff)
  then show ?thesis using drain_spec [OF assms(1), of ixs] assms(2) by simp
qed
theorem cycle_refines_spec_witness:
  "distinct (map fst [(''a'', example_server, Inl (NoProxies ''a'')), (''b'', example_server, Inr example_payload)]) \<and>
   tasks (foldl (\<lambda>c i. task_done i c)
     \<lparr>busy = True, store = [(''a'', mk_entry example_server example_payload)],
      tasks = [(''a'', example_server, Inl (NoProxies ''a'')), (''b'', example_server, Inr example_payload)]\<rparr> [1, 0]) = [] \<and>
   map_of (store (foldl (\<lambda>c i. task_done i c)
     \<lparr>busy = True, store = [(''a'', mk_entry example_server example_payload)],
      tasks = [(''a'', example_server, Inl (NoProxies ''a'')), (''b'', example_server, Inr example_payload)]\<rparr> [1, 0]))
     ''a'' = None"
proof -
  define c where "c = \<lparr>busy = True, store = [(''a'', mk_entry example_server example_payload)],
      tasks = [(''a'', example_server, Inl (NoProxies ''a'')), (''b'', example_server, Inr (example_payload :: payload))]\<rparr>"
  have h: "distinct (map fst (tasks c))" "tasks (foldl (\<lambda>c i. task_done i c) c [1, 0]) = []"
    by (simp_all add: c_def task_done_def)
  have "cycle_spec (tasks c) (store c) ''a'' = None" by (simp add: c_def cycle_spec_def)
  then show ?thesis using h cycle_refines_spec [OF h] unfolding c_def by simp
qed

text \<open>
  Duplicate servers race: when the server list holds the same address and port twice
  and one collection succeeds while the other fails, the snapshot left for that key depends
  on which task completes last.
\<close>

theorem duplicate_key_race:
  "store (foldl (\<lambda>c i. task_done i c)
     \<lparr>busy = True, store = [], tasks = [(k, sv, Inr st), (k, sv, Inl e)]\<rparr> [0, 0]) = [] \<and>
   store (foldl (\<lambda>c i. task_done i c)
     \<lparr>busy = True, store = [], tasks = [(k, sv, Inr st), (k, sv, Inl e)]\<rparr> [1, 0]) = [(k, mk_entry sv st)]"
  by (simp add: task_done_def record_result_def)

text \<open>
  C34 (a cycle ends): once a cycle has launched its tasks, every order in which they
  complete (the \<open>k\<close>-th completion naming one of the tasks still pending) empties the
  task list after exactly as many completions as there were tasks, and clears the busy flag
  \<^verbatim>\<open>isRefreshing\<close>, so the next refresh call starts a new cycle.
\<close>

theorem cycle_terminates:
  assumes "length ixs = length (tasks c)" "\<forall>k < length ixs. ixs ! k < length (tasks c) - k" "tasks c \<noteq> []"
  shows "tasks (foldl (\<lambda>c i. task_done i c) c ixs) = [] \<and> \<not> busy (foldl (\<lambda>c i. task_done i c) c ixs)"
  using assms
proof (induction ixs arbitrary: c)
  case Nil
  then show ?case by simp
next
  case (Cons i ixs)
  have i: "i < length (tasks c)" using Cons.prems(2) by fastforce
  let ?c = "task_done i c"
  have len: "length (tasks ?c) = length ixs" and b: "busy ?c = (tasks ?c \<noteq> [])"
    using i Cons.prems(1) by (simp_all add: task_done_def Let_def)
  show ?case
  proof (cases ixs)
    case Nil
    then show ?thesis using len b by simp
  next
    case (Cons j js)
    have "\<forall>k < length ixs. ixs ! k < length (tasks ?c) - k"
    proof (intro allI impI)
      fix k assume "k < length ixs"
      then have "(i # ixs) ! Suc k < length (tasks c) - Suc k" using Cons.prems(2) by (metis length_Cons Suc_mono)
      then show "ixs ! k < length (tasks ?c) - k" using len Cons.prems(1) by simp
    qed
    moreover have "tasks ?c \<noteq> []" using len Cons by auto
    ultimately show ?thesis using Cons.IH [of ?c] len by simp
  qed
qed

theorem cycle_terminates_witness:
  "tasks (foldl (\<lambda>c i. task_done i c)
     \<lparr>busy = True, store = [], tasks = [(''a'', example_server, Inl (NoProxies ''a'')), (''b'', example_server, Inr example_payload)]\<rparr> [1, 0]) = [] \<and>
   \<not> busy (foldl (\<lambda>c i. task_done i c)
     \<lparr>busy = True, store = [], tasks = [(''a'', example_server, Inl (NoProxies ''a'')), (''b'', example_server, Inr example_payload)]\<rparr> [1, 0])"
proof -
  have h: "\<forall>k < length [1, 0 :: nat]. [1, 0 :: nat] ! k < length [(''a'', example_server, Inl (NoProxies ''a'')), (''b'', example_server, Inr (example_payload :: payload))] - k"
    by (simp add: less_Suc_eq numeral_2_eq_2 All_less_Suc)
  show ?thesis
    using h cycle_terminates [of "[1, 0]" "\<lparr>busy = True, store = [], tasks = [(''a'', example_server, Inl (NoProxies ''a'')), (''b'', example_server, Inr example_payload)]\<rparr>"]
    by simp
qed

end
