(* ===== verification/Viewers.thy ===== *)
theory Viewers
  imports Prelude
begin

text \<open>
  Model of the live-viewer registry of the HTTP server (\<^verbatim>\<open>src/index.js\<close>, lines 25--34
  and the route \<^verbatim>\<open>/live-viewers\<close>, lines 214--239). A connection is the \<^verbatim>\<open>res\<close>
  object of one request, named by a number; \<^verbatim>\<open>viewerClients\<close> is a \<^verbatim>\<open>Set\<close>, iterated
  in insertion order, so it is a list without repetitions; \<^verbatim>\<open>viewerCount\<close> is a number,
  an \<open>int\<close> here because of \<^verbatim>\<open>Math.max(0, viewerCount - 1)\<close>. The writes of the
  server are recorded in order in \<open>outbox\<close>, with the connection written to. The events are
  the arrival of a request, the \<^verbatim>\<open>close\<close> event of the request or of the response (both
  run \<^verbatim>\<open>cleanup\<close>, so a connection usually sees two), and the tick of a connection's
  heartbeat interval.
\<close>

record viewer_st =
  clients :: "nat list"
  vcount :: int
  used :: "nat list"
  beating :: "nat list"
  outbox :: "(nat \<times> string) list"

definition viewers_init :: viewer_st where
  "viewers_init = \<lparr>clients = [], vcount = 0, used = [], beating = [], outbox = []\<rparr>"

text \<open>\<^verbatim>\<open>data: ${JSON.stringify({ viewerCount })}\n\n\<close> for a non-negative count.\<close>

definition count_msg :: "int \<Rightarrow> string" where
  "count_msg n = ''data: {'' @ [CHR 0x22] @ ''viewerCount'' @ [CHR 0x22] @ '':'' @ radix_string 10 (nat n) @ ''}'' @
     [CHR 0x0A, CHR 0x0A]"

definition heartbeat_msg :: string where
  "heartbeat_msg = '': heartbeat'' @ [CHR 0x0A, CHR 0x0A]"

text \<open>\<^verbatim>\<open>broadcastViewerCount\<close>, lines 28--34.\<close>

definition broadcast :: "viewer_st \<Rightarrow> viewer_st" where
  "broadcast s =
     (if clients s = [] then s
      else s\<lparr>outbox := outbox s @ map (\<lambda>c. (c, count_msg (vcount s))) (clients s)\<rparr>)"

text \<open>The route handler, lines 214--226: register, count, broadcast, arm the heartbeat.\<close>

definition connect :: "nat \<Rightarrow> viewer_st \<Rightarrow> viewer_st" where
  "connect r s =
     (let s1 = broadcast (s\<lparr>clients := clients s @ [r], vcount := vcount s + 1, used := used s @ [r]\<rparr>)
      in s1\<lparr>beating := beating s1 @ [r]\<rparr>)"

text \<open>\<^verbatim>\<open>cleanup\<close>, lines 228--236: stop the heartbeat, and only if the connection is still
  registered, remove it, decrement and broadcast.\<close>

definition cleanup :: "nat \<Rightarrow> viewer_st \<Rightarrow> viewer_st" where
  "cleanup r s =
     (let s1 = s\<lparr>beating := removeAll r (beating s)\<rparr> in
      if r \<in> set (clients s1)
      then broadcast (s1\<lparr>clients := removeAll r (clients s1), vcount := max 0 (vcount s1 - 1)\<rparr>)
      else s1)"

text \<open>The heartbeat interval, lines 224--226.\<close>

definition heartbeat :: "nat \<Rightarrow> viewer_st \<Rightarrow> viewer_st" where
  "heartbeat r s = (if r \<in> set (beating s) then s\<lparr>outbox := outbox s @ [(r, heartbeat_msg)]\<rparr> else s)"

datatype viewer_ev = VConnect nat | VClose nat | VTick nat

text \<open>A request creates a new response object; close events come only for a connection that
  was opened.\<close>

definition vstep :: "viewer_st \<Rightarrow> viewer_ev \<Rightarrow> viewer_st" where
  "vstep s ev =
     (case ev of
        VConnect r \<Rightarrow> if r \<in> set (used s) then s else connect r s
      | VClose r \<Rightarrow> if r \<in> set (used s) then cleanup r s else s
      | VTick r \<Rightarrow> heartbeat r s)"

inductive vreach :: "viewer_st \<Rightarrow> bool" where
  init: "vreach viewers_init"
| step: "vreach s \<Longrightarrow> vreach (vstep s ev)"

text \<open>The last count message a connection received.\<close>

definition last_count :: "nat \<Rightarrow> (nat \<times> string) list \<Rightarrow> string option" where
  "last_count c ob = (let ms = [m. (d, m) \<leftarrow> ob, d = c \<and> m \<noteq> heartbeat_msg] in if ms = [] then None else Some (last ms))"

definition viewers_inv :: "viewer_st \<Rightarrow> bool" where
  "viewers_inv s \<longleftrightarrow> distinct (clients s) \<and> set (clients s) \<subseteq> set (used s) \<and>
     vcount s = int (length (clients s)) \<and>
     list_all (\<lambda>c. last_count c (outbox s) = Some (count_msg (vcount s))) (clients s)"

text \<open>How the writes change the last count message of a connection.\<close>

lemma count_msg_not_heartbeat: "count_msg n \<noteq> heartbeat_msg"
  by (simp add: count_msg_def heartbeat_msg_def)

lemma last_count_heartbeat: "last_count c (ob @ [(r, heartbeat_msg)]) = last_count c ob"
  by (simp add: last_count_def)

lemma last_count_bcast:
  "last_count c (ob @ map (\<lambda>x. (x, count_msg n)) cs) = (if c \<in> set cs then Some (count_msg n) else last_count c ob)"
proof (induction cs rule: rev_induct)
  case Nil
  then show ?case by simp
next
  case (snoc x cs)
  then show ?case by (auto simp: last_count_def count_msg_not_heartbeat)
qed

lemma broadcast_fields [simp]:
  "clients (broadcast s) = clients s" "vcount (broadcast s) = vcount s" "used (broadcast s) = used s"
  "beating (broadcast s) = beating s"
  by (simp_all add: broadcast_def)

lemma broadcast_inv:
  assumes "distinct (clients s)" "set (clients s) \<subseteq> set (used s)" "vcount s = int (length (clients s))"
  shows "viewers_inv (broadcast s)"
  using assms by (auto simp: viewers_inv_def broadcast_def list_all_iff last_count_bcast)

lemma viewers_inv_beating: "viewers_inv (s\<lparr>beating := b\<rparr>) = viewers_inv s"
  by (simp add: viewers_inv_def)

lemma viewers_inv_connect: "viewers_inv s \<Longrightarrow> r \<notin> set (used s) \<Longrightarrow> viewers_inv (connect r s)"
proof -
  assume inv: "viewers_inv s" and fresh: "r \<notin> set (used s)"
  let ?s1 = "s\<lparr>clients := clients s @ [r], vcount := vcount s + 1, used := used s @ [r]\<rparr>"
  have "r \<notin> set (clients s)" using inv fresh by (auto simp: viewers_inv_def)
  then have "viewers_inv (broadcast ?s1)" using inv by (intro broadcast_inv) (auto simp: viewers_inv_def)
  then show ?thesis by (simp add: connect_def viewers_inv_beating Let_def)
qed

lemma viewers_inv_cleanup: "viewers_inv s \<Longrightarrow> viewers_inv (cleanup r s)"
proof -
  assume inv: "viewers_inv s"
  show ?thesis
  proof (cases "r \<in> set (clients s)")
    case True
    let ?s2 = "s\<lparr>beating := removeAll r (beating s), clients := removeAll r (clients s),
                 vcount := max 0 (vcount s - 1)\<rparr>"
    have d: "distinct (clients s)" using inv by (simp add: viewers_inv_def)
    then have "length (removeAll r (clients s)) = length (clients s) - 1"
      using True by (simp add: distinct_remove1_removeAll [symmetric] length_remove1)
    moreover obtain n where "length (clients s) = Suc n" using True by (cases "clients s") auto
    ultimately have "vcount ?s2 = int (length (clients ?s2))" using inv by (auto simp: viewers_inv_def)
    then have "viewers_inv (broadcast ?s2)" using inv d
      by (intro broadcast_inv) (auto simp: viewers_inv_def removeAll_filter_not_eq)
    then show ?thesis using True by (simp add: cleanup_def)
  next
    case False
    then show ?thesis using inv by (auto simp: cleanup_def viewers_inv_def)
  qed
qed

lemma viewers_inv_heartbeat: "viewers_inv s \<Longrightarrow> viewers_inv (heartbeat r s)"
  by (auto simp: heartbeat_def viewers_inv_def last_count_heartbeat)

lemma viewers_inv_step: "viewers_inv s \<Longrightarrow> viewers_inv (vstep s ev)"
  by (cases ev) (simp_all add: vstep_def viewers_inv_connect viewers_inv_cleanup viewers_inv_heartbeat)

lemma vreach_inv: "vreach s \<Longrightarrow> viewers_inv s"
proof (induction rule: vreach.induct)
  case init
  then show ?case by (simp add: viewers_init_def viewers_inv_def)
next
  case (step s ev)
  then show ?case by (simp add: viewers_inv_step)
qed

lemma vreach_run: "vreach s \<Longrightarrow> vreach (foldl vstep s evs)"
  by (induction evs arbitrary: s) (auto intro: vreach.step)

text \<open>
  C15 (the viewer count is exact): in every state the server reaches, \<^verbatim>\<open>viewerCount\<close>
  is the number of registered connections, which are distinct, although every connection
  runs \<^verbatim>\<open>cleanup\<close> twice, once for the request and once for the response.
\<close>

theorem viewer_count_exact:
  assumes "vreach s"
  shows "vcount s = int (length (clients s)) \<and> distinct (clients s)"
  using vreach_inv [OF assms] by (simp add: viewers_inv_def)

theorem viewer_count_exact_witness:
  "vreach (foldl vstep viewers_init [VConnect 1, VConnect 2, VClose 1, VClose 1]) \<and>
   vcount (foldl vstep viewers_init [VConnect 1, VConnect 2, VClose 1, VClose 1]) = 1"
proof -
  have h: "vreach (foldl vstep viewers_init [VConnect 1, VConnect 2, VClose 1, VClose 1])"
    by (rule vreach_run [OF vreach.init])
  have "clients (foldl vstep viewers_init [VConnect 1, VConnect 2, VClose 1, VClose 1]) = [2]"
    by (simp add: vstep_def viewers_init_def connect_def cleanup_def broadcast_def Let_def)
  then show ?thesis using h viewer_count_exact [OF h] by simp
qed

text \<open>
  C16 (every viewer sees the current count): in every state the server reaches, the last
  count message written to each registered connection carries the current
  \<^verbatim>\<open>viewerCount\<close>: an arrival and a departure are broadcast to all connections.
\<close>

theorem viewer_sees_count:
  assumes "vreach s" "c \<in> set (clients s)"
  shows "last_count c (outbox s) = Some (count_msg (vcount s))"
  using vreach_inv [OF assms(1)] assms(2) by (simp add: viewers_inv_def list_all_iff)

theorem viewer_sees_count_witness:
  "vreach (foldl vstep viewers_init [VConnect 1, VConnect 2, VTick 2, VClose 1]) \<and>
   (2::nat) \<in> set (clients (foldl vstep viewers_init [VConnect 1, VConnect 2, VTick 2, VClose 1])) \<and>
   last_count 2 (outbox (foldl vstep viewers_init [VConnect 1, VConnect 2, VTick 2, VClose 1])) = Some (count_msg 1)"
proof -
  let ?s = "foldl vstep viewers_init [VConnect 1, VConnect 2, VTick 2, VClose 1]"
  have h: "vreach ?s" by (rule vreach_run [OF vreach.init])
  have c: "(2::nat) \<in> set (clients ?s)" "vcount ?s = 1"
    by (simp_all add: vstep_def viewers_init_def connect_def cleanup_def broadcast_def heartbeat_def Let_def)
  show ?thesis using h c viewer_sees_count [OF h c(1)] by simp
qed

end
