(* ===== verification/Dashboard.thy ===== *)
theory Dashboard
  imports Prelude "HOL-Library.Multiset"
begin

text \<open>
  Model of the filtering and ordering of the dashboard (\<^verbatim>\<open>src/public/main.js\<close>,
  \<^verbatim>\<open>applyFilters\<close>, lines 252--280). A server of the dashboard is the JSON object of
  one \<^verbatim>\<open>/stats\<close> entry, with the fields the filters and sorters read (prefixed
  \<open>ds_\<close> where the name is a field of the collector's records); a missing field is
  \<open>None\<close>. Numbers are integers. Strings are Latin-1 code units, on which
  \<^verbatim>\<open>toLowerCase\<close> is \<open>js_lower\<close>. \<^verbatim>\<open>Array.prototype.sort\<close> is stable; for a
  consistent comparator its result is the one of the stable insertion sort \<open>js_sort\<close>.
\<close>

record dserver =
  continentName :: "string option"
  countryName :: "string option"
  ds_totalPlayers :: "int option"
  ds_totalScore :: "int option"
  ds_leaderboard :: "(string option \<times> int option) list option"

text \<open>\<^verbatim>\<open>String.prototype.toLowerCase\<close> on Latin-1: \<open>A\<close>--\<open>Z\<close> and
  \<open>0xC0\<close>--\<open>0xDE\<close> but the multiplication sign.\<close>

definition js_lower_char :: "char \<Rightarrow> char" where
  "js_lower_char c =
     (let n = of_char c :: nat in
      if (65 \<le> n \<and> n \<le> 90) \<or> (192 \<le> n \<and> n \<le> 222 \<and> n \<noteq> 215) then char_of (n + 32) else c)"

definition js_lower :: "string \<Rightarrow> string" where
  "js_lower s = map js_lower_char s"

text \<open>\<^verbatim>\<open>String.prototype.includes\<close>.\<close>

fun js_includes :: "string \<Rightarrow> string \<Rightarrow> bool" where
  "js_includes [] t = (t = [])"
| "js_includes (c # cs) t = (take (length t) (c # cs) = t \<or> js_includes cs t)"

text \<open>A comparator returns a number; the sort moves \<open>x\<close> before \<open>y\<close> only when
  \<open>cmp y x > 0\<close>. \<open>ins_by\<close> inserts after every element that does not compare greater,
  which keeps equal elements in their order.\<close>

fun ins_by :: "('a \<Rightarrow> 'a \<Rightarrow> int) \<Rightarrow> 'a \<Rightarrow> 'a list \<Rightarrow> 'a list" where
  "ins_by cmp x [] = [x]"
| "ins_by cmp x (y # ys) = (if 0 < cmp y x then x # y # ys else y # ins_by cmp x ys)"

definition js_sort :: "('a \<Rightarrow> 'a \<Rightarrow> int) \<Rightarrow> 'a list \<Rightarrow> 'a list" where
  "js_sort cmp xs = foldl (\<lambda>acc x. ins_by cmp x acc) [] xs"

text \<open>The keys of the sorters, lines 264--267 (\<^verbatim>\<open>?? 0\<close> for a missing value, and
  \<^verbatim>\<open>leaderboard?.[i]?.score\<close>).\<close>

definition lb_score_at :: "nat \<Rightarrow> dserver \<Rightarrow> int" where
  "lb_score_at i s =
     (case ds_leaderboard s of None \<Rightarrow> 0
      | Some l \<Rightarrow> if i < length l then js_nullish (snd (l ! i)) 0 else 0)"

definition desc_by :: "('a \<Rightarrow> int) \<Rightarrow> 'a \<Rightarrow> 'a \<Rightarrow> int" where
  "desc_by k a b = k b - k a"

datatype sorter = SPlayers | STotalScore | STop1 | STop10 | SRegion

text \<open>\<^verbatim>\<open>sorters[state.sort] ?? sorters.players\<close>: the menu's identifiers, any other
  value the players sorter.\<close>

definition sorter_of :: "string \<Rightarrow> sorter" where
  "sorter_of k =
     (if k = ''totalScore'' then STotalScore else if k = ''top1'' then STop1
      else if k = ''top10'' then STop10 else if k = ''region'' then SRegion else SPlayers)"

text \<open>The region sorter compares with \<^verbatim>\<open>localeCompare\<close> at base sensitivity, the
  parameter \<open>lc\<close>.\<close>

definition sorter_cmp :: "(string \<Rightarrow> string \<Rightarrow> int) \<Rightarrow> sorter \<Rightarrow> dserver \<Rightarrow> dserver \<Rightarrow> int" where
  "sorter_cmp lc so a b =
     (case so of
        SPlayers \<Rightarrow> desc_by (\<lambda>s. js_nullish (ds_totalPlayers s) 0) a b
      | STotalScore \<Rightarrow> desc_by (\<lambda>s. js_nullish (ds_totalScore s) 0) a b
      | STop1 \<Rightarrow> desc_by (lb_score_at 0) a b
      | STop10 \<Rightarrow> desc_by (lb_score_at 9) a b
      | SRegion \<Rightarrow>
          (let r = lc (js_nullish (continentName a) ''Unknown'') (js_nullish (continentName b) ''Unknown'') in
           if r \<noteq> 0 then r else lc (js_nullish (countryName a) []) (js_nullish (countryName b) [])))"

text \<open>The two filters, lines 255--262.\<close>

definition region_ok :: "string \<Rightarrow> dserver \<Rightarrow> bool" where
  "region_ok region s = (region = ''ALL'' \<or> js_nullish (continentName s) ''Unknown region'' = region)"

definition search_ok :: "string \<Rightarrow> dserver \<Rightarrow> bool" where
  "search_ok term s =
     (term = [] \<or>
      list_ex (\<lambda>e. js_includes (js_lower (js_nullish (fst e) [])) (js_lower term)) (js_nullish (ds_leaderboard s) []))"

definition applyFilters ::
  "(string \<Rightarrow> string \<Rightarrow> int) \<Rightarrow> string \<Rightarrow> string \<Rightarrow> string \<Rightarrow> dserver list \<Rightarrow> dserver list" where
  "applyFilters lc region sortId term allServers =
     (let s1 = (if region \<noteq> ''ALL'' then filter (region_ok region) allServers else allServers);
          s2 = (if term \<noteq> [] then filter (search_ok term) s1 else s1)
      in js_sort (sorter_cmp lc (sorter_of sortId)) s2)"

text \<open>The key each numeric sorter orders by, descending.\<close>

definition num_key :: "sorter \<Rightarrow> dserver \<Rightarrow> int" where
  "num_key so s =
     (case so of SPlayers \<Rightarrow> js_nullish (ds_totalPlayers s) 0 | STotalScore \<Rightarrow> js_nullish (ds_totalScore s) 0
      | STop1 \<Rightarrow> lb_score_at 0 s | STop10 \<Rightarrow> lb_score_at 9 s | SRegion \<Rightarrow> 0)"

section \<open>The sort is the library's stable sort\<close>

lemma mset_ins_by [simp]: "mset (ins_by cmp x ys) = add_mset x (mset ys)"
  by (induction ys) auto

lemma mset_js_sort_acc: "mset (foldl (\<lambda>acc x. ins_by cmp x acc) acc xs) = mset acc + mset xs"
  by (induction xs arbitrary: acc) auto

lemma mset_js_sort [simp]: "mset (js_sort cmp xs) = mset xs"
  using mset_js_sort_acc [of cmp "[]" xs] by (simp add: js_sort_def)

lemma set_ins_by [simp]: "set (ins_by cmp x ys) = insert x (set ys)"
  by (induction ys) auto

lemma sorted_ins_by:
  "sorted (map f ys) \<Longrightarrow> sorted (map f (ins_by (\<lambda>a b. f a - f b) x ys))"
  by (induction ys) (auto simp: not_less)

lemma filter_ins_by:
  assumes "sorted (map f ys)"
  shows "filter (\<lambda>z. f z = v) (ins_by (\<lambda>a b. f a - f b) x ys) =
           (if f x = v then filter (\<lambda>z. f z = v) ys @ [x] else filter (\<lambda>z. f z = v) ys)"
  using assms
proof (induction ys)
  case Nil
  then show ?case by simp
next
  case (Cons y ys)
  show ?case
  proof (cases "f x < f y")
    case True
    then have "\<forall>z\<in>set ys. f x < f z" using Cons.prems by auto
    then have "filter (\<lambda>z. f z = f x) ys = []" by (auto simp: filter_empty_conv)
    then show ?thesis using True by auto
  next
    case False
    then show ?thesis using Cons by auto
  qed
qed

lemma js_sort_acc_props:
  assumes "sorted (map f acc)"
  shows "sorted (map f (foldl (\<lambda>acc x. ins_by (\<lambda>a b. f a - f b) x acc) acc xs)) \<and>
         filter (\<lambda>z. f z = v) (foldl (\<lambda>acc x. ins_by (\<lambda>a b. f a - f b) x acc) acc xs) =
           filter (\<lambda>z. f z = v) acc @ filter (\<lambda>z. f z = v) xs"
  using assms
proof (induction xs arbitrary: acc)
  case Nil
  then show ?case by simp
next
  case (Cons x xs)
  have s: "sorted (map f (ins_by (\<lambda>a b. f a - f b) x acc))" using Cons.prems by (rule sorted_ins_by)
  show ?case using Cons.IH [OF s] filter_ins_by [OF Cons.prems, of v x] by simp
qed

text \<open>A stable sort by an integer key is unique: \<open>js_sort\<close> with the comparator
  \<open>f a - f b\<close> is \<open>sort_key f\<close>.\<close>

lemma js_sort_sort_key: "js_sort (\<lambda>a b. f a - f b) xs = sort_key f xs"
proof (rule properties_for_sort_key [symmetric])
  show "mset (js_sort (\<lambda>a b. f a - f b) xs) = mset xs" by simp
  show "sorted (map f (js_sort (\<lambda>a b. f a - f b) xs))"
    using js_sort_acc_props [of f "[]" xs] by (simp add: js_sort_def)
  fix k
  show "filter (\<lambda>x. f k = f x) (js_sort (\<lambda>a b. f a - f b) xs) = filter (\<lambda>x. f k = f x) xs"
    using js_sort_acc_props [of f "[]" xs "f k"] by (simp add: js_sort_def eq_commute)
qed

lemma desc_by_neg: "desc_by k = (\<lambda>a b. (- k a) - (- k b))"
  by (simp add: desc_by_def fun_eq_iff)

lemma js_sort_desc: "js_sort (desc_by k) xs = sort_key (\<lambda>x. - k x) xs"
  unfolding desc_by_neg by (rule js_sort_sort_key)

lemma sorter_cmp_num: "so \<noteq> SRegion \<Longrightarrow> sorter_cmp lc so = desc_by (num_key so)"
  by (cases so) (simp_all add: sorter_cmp_def num_key_def desc_by_def fun_eq_iff)

lemma applyFilters_js_sort:
  "applyFilters lc region sortId term xs =
     js_sort (sorter_cmp lc (sorter_of sortId)) (filter (\<lambda>s. region_ok region s \<and> search_ok term s) xs)"
proof -
  have "region = ''ALL'' \<Longrightarrow> region_ok region = (\<lambda>_. True)" "term = [] \<Longrightarrow> search_ok term = (\<lambda>_. True)"
    by (simp_all add: region_ok_def search_ok_def fun_eq_iff)
  then show ?thesis by (cases "region = ''ALL''"; cases "term = []") (simp_all add: applyFilters_def filter_filter)
qed

section \<open>Properties of the filters\<close>


text \<open>
  C21 (the numeric sorters are stable descending sorts): for every sorter but the region one,
  the list \<^verbatim>\<open>applyFilters\<close> renders is the library's stable \<open>sort_key\<close> of the matching
  servers by the negated key: descending by players, total score, first or tenth score, and
  servers of equal key in the order of the fetched list.
\<close>

theorem applyFilters_sort_key:
  assumes "sorter_of sortId \<noteq> SRegion"
  shows "applyFilters lc region sortId term xs =
           sort_key (\<lambda>s. - num_key (sorter_of sortId) s) (filter (\<lambda>s. region_ok region s \<and> search_ok term s) xs)"
  by (simp add: applyFilters_js_sort sorter_cmp_num [OF assms] js_sort_desc)

theorem applyFilters_sort_key_witness:
  "sorter_of ''players'' \<noteq> SRegion \<and>
   applyFilters (\<lambda>_ _. 0) ''ALL'' ''players'' []
     [\<lparr>continentName = None, countryName = None, ds_totalPlayers = Some 1, ds_totalScore = None, ds_leaderboard = None\<rparr>,
      \<lparr>continentName = None, countryName = None, ds_totalPlayers = Some 5, ds_totalScore = None, ds_leaderboard = None\<rparr>,
      \<lparr>continentName = Some ''Asia'', countryName = None, ds_totalPlayers = Some 1, ds_totalScore = None, ds_leaderboard = None\<rparr>] =
     [\<lparr>continentName = None, countryName = None, ds_totalPlayers = Some 5, ds_totalScore = None, ds_leaderboard = None\<rparr>,
      \<lparr>continentName = None, countryName = None, ds_totalPlayers = Some 1, ds_totalScore = None, ds_leaderboard = None\<rparr>,
      \<lparr>continentName = Some ''Asia'', countryName = None, ds_totalPlayers = Some 1, ds_totalScore = None, ds_leaderboard = None\<rparr>]"
proof -
  have h: "sorter_of ''players'' \<noteq> SRegion" by (simp add: sorter_of_def)
  show ?thesis using h applyFilters_sort_key [OF h]
    by (simp add: num_key_def sorter_of_def region_ok_def search_ok_def)
qed

end
