(* ===== verification/DashClient.thy ===== *)
theory DashClient
  imports Dashboard
begin

text \<open>
  Model of the dashboard page as a state machine (\<^verbatim>\<open>src/public/main.js\<close>): the
  module object \<^verbatim>\<open>state\<close> and the countdown globals (lines 36--53) as the record
  \<open>dash\<close>, and one event per callback the page registers: the answer of a
  \<^verbatim>\<open>/stats\<close> request (\<^verbatim>\<open>fetchStats\<close>, lines 307--340), a click of the refresh
  button, of a region or of a sort entry (lines 346--362, 454), the search button or Enter and
  the clearing of the search box (\<^verbatim>\<open>handleSearch\<close> and the input listener, lines
  389--392, 455--468), a message of the viewer stream (lines 399--409) and a tick of the
  countdown interval (\<^verbatim>\<open>startCountdown\<close>, lines 286--305). Requests are asynchronous:
  \<open>requests\<close> logs the \<^verbatim>\<open>forceRefresh\<close> flag of each request sent, \<open>pending\<close> counts
  those not answered, and an answer may arrive for any of them. The DOM writes
  (\<^verbatim>\<open>renderStats\<close>, \<^verbatim>\<open>updateStatus\<close>) are not state of the model; the list rendered
  is \<open>filtered\<close>. The collation of \<^verbatim>\<open>localeCompare\<close> is the parameter \<open>lc\<close>.
\<close>

definition REFRESH_DEFAULT_SECONDS :: int where
  "REFRESH_DEFAULT_SECONDS = 120"

record dash =
  allServers :: "dserver list"
  filtered :: "dserver list"
  region :: string
  sortId :: string
  searchTerm :: string
  refreshIntervalSeconds :: int
  totalServers :: nat
  liveViewers :: int
  countdownSeconds :: int
  countdownTimer :: bool
  requests :: "bool list"
  pending :: nat

definition dash_init :: dash where
  "dash_init = \<lparr>allServers = [], filtered = [], region = ''ALL'', sortId = ''players'', searchTerm = [],
     refreshIntervalSeconds = REFRESH_DEFAULT_SECONDS, totalServers = 0, liveViewers = 0,
     countdownSeconds = REFRESH_DEFAULT_SECONDS, countdownTimer = False, requests = [], pending = 0\<rparr>"

text \<open>The body of a \<^verbatim>\<open>/stats\<close> answer as the page reads it: \<open>NotOk\<close> when the fetch
  rejects, the status is not 2xx or the body is not JSON; otherwise the fields
  \<^verbatim>\<open>servers\<close> (\<open>None\<close> when it is not an array), \<^verbatim>\<open>serverCount\<close>,
  \<^verbatim>\<open>refreshIntervalSeconds\<close> and \<^verbatim>\<open>onlineViewers\<close> (\<open>None\<close> when it is not a
  number).\<close>

datatype dash_resp = NotOk | Body "dserver list option" "nat option" "int option" "int option"

definition refilter :: "(string \<Rightarrow> string \<Rightarrow> int) \<Rightarrow> dash \<Rightarrow> dash" where
  "refilter lc s = s\<lparr>filtered := applyFilters lc (region s) (sortId s) (searchTerm s) (allServers s)\<rparr>"

text \<open>\<^verbatim>\<open>fetchStats\<close> sends a request.\<close>

definition fetchStats :: "bool \<Rightarrow> dash \<Rightarrow> dash" where
  "fetchStats force s = s\<lparr>requests := requests s @ [force], pending := pending s + 1\<rparr>"

text \<open>\<^verbatim>\<open>startCountdown\<close>, lines 286--292: the count is at least one second; the
  previous interval is cleared and a new one armed.\<close>

definition startCountdown :: "int \<Rightarrow> dash \<Rightarrow> dash" where
  "startCountdown seconds s = s\<lparr>countdownSeconds := max 1 seconds, countdownTimer := True\<rparr>"

text \<open>The answer to a request, lines 310--339: a body without a \<^verbatim>\<open>servers\<close> array
  throws, and the \<^verbatim>\<open>catch\<close> clears the countdown.\<close>

definition fetch_answer :: "(string \<Rightarrow> string \<Rightarrow> int) \<Rightarrow> dash_resp \<Rightarrow> dash \<Rightarrow> dash" where
  "fetch_answer lc r s =
     (case r of
        Body (Some servers) serverCount ri ov \<Rightarrow>
          (let all = map (\<lambda>sv. sv\<lparr>ds_leaderboard := Some (js_nullish (ds_leaderboard sv) [])\<rparr>) servers;
               s1 = s\<lparr>allServers := all, totalServers := js_nullish serverCount (length all),
                      refreshIntervalSeconds := js_nullish ri REFRESH_DEFAULT_SECONDS,
                      liveViewers := js_nullish ov (liveViewers s)\<rparr>;
               s2 = refilter lc s1
           in startCountdown (refreshIntervalSeconds s2) s2)
      | _ \<Rightarrow> s\<lparr>countdownTimer := False\<rparr>)"

text \<open>A tick of the countdown interval, lines 294--304; it fires only while armed.\<close>

definition tick :: "dash \<Rightarrow> dash" where
  "tick s =
     (if \<not> countdownTimer s then s
      else (let s1 = s\<lparr>countdownSeconds := countdownSeconds s - 1\<rparr> in
            if countdownSeconds s1 \<le> 0 then fetchStats True (s1\<lparr>countdownTimer := False\<rparr>) else s1))"

datatype dash_ev =
    DAnswer dash_resp
  | DRefreshClick
  | DRegion string
  | DSort string
  | DSearch string
  | DInput string
  | DViewerMsg "int option"
  | DTick

definition dash_step :: "(string \<Rightarrow> string \<Rightarrow> int) \<Rightarrow> dash \<Rightarrow> dash_ev \<Rightarrow> dash" where
  "dash_step lc s ev =
     (case ev of
        DAnswer r \<Rightarrow> if pending s = 0 then s else fetch_answer lc r (s\<lparr>pending := pending s - 1\<rparr>)
      | DRefreshClick \<Rightarrow> fetchStats True s
      | DRegion r \<Rightarrow> refilter lc (s\<lparr>region := r\<rparr>)
      | DSort k \<Rightarrow> refilter lc (s\<lparr>sortId := k\<rparr>)
      | DSearch v \<Rightarrow> refilter lc (s\<lparr>searchTerm := js_trim v\<rparr>)
      | DInput v \<Rightarrow> if js_trim v = [] \<and> searchTerm s \<noteq> [] then refilter lc (s\<lparr>searchTerm := []\<rparr>) else s
      | DViewerMsg v \<Rightarrow> s\<lparr>liveViewers := js_nullish v (liveViewers s)\<rparr>
      | DTick \<Rightarrow> tick s)"

text \<open>The page's script ends by sending the first request (line 481).\<close>

inductive dash_reach :: "(string \<Rightarrow> string \<Rightarrow> int) \<Rightarrow> dash \<Rightarrow> bool" for lc where
  init: "dash_reach lc (fetchStats True dash_init)"
| step: "dash_reach lc s \<Longrightarrow> dash_reach lc (dash_step lc s ev)"

definition dash_inv :: "(string \<Rightarrow> string \<Rightarrow> int) \<Rightarrow> dash \<Rightarrow> bool" where
  "dash_inv lc s \<longleftrightarrow>
     filtered s = applyFilters lc (region s) (sortId s) (searchTerm s) (allServers s) \<and>
     (countdownTimer s \<longrightarrow> 1 \<le> countdownSeconds s) \<and> pending s \<le> length (requests s)"

text \<open>The events that happen without the user asking for data and without an answer
  arriving: filters, search, viewer messages and ticks.\<close>

definition auto_event :: "dash_ev \<Rightarrow> bool" where
  "auto_event e = (case e of DAnswer _ \<Rightarrow> False | DRefreshClick \<Rightarrow> False | _ \<Rightarrow> True)"

section \<open>Invariant of the page\<close>

lemma dash_inv_refilter [simp]: "dash_inv lc (refilter lc s) \<longleftrightarrow>
     (countdownTimer s \<longrightarrow> 1 \<le> countdownSeconds s) \<and> pending s \<le> length (requests s)"
  by (simp add: dash_inv_def refilter_def)

lemma dash_inv_fetch_answer: "dash_inv lc s \<Longrightarrow> dash_inv lc (fetch_answer lc r s)"
  by (auto simp: fetch_answer_def startCountdown_def refilter_def dash_inv_def Let_def
           split: dash_resp.splits option.splits)

lemma dash_inv_tick: "dash_inv lc s \<Longrightarrow> dash_inv lc (tick s)"
  by (auto simp: tick_def fetchStats_def dash_inv_def Let_def)

lemma dash_inv_step:
  assumes "dash_inv lc s"
  shows "dash_inv lc (dash_step lc s ev)"
proof (cases ev)
  case (DAnswer r)
  have "dash_inv lc (s\<lparr>pending := pending s - 1\<rparr>)" using assms by (auto simp: dash_inv_def)
  then show ?thesis using DAnswer assms by (simp add: dash_step_def dash_inv_fetch_answer)
next
  case DTick
  then show ?thesis using assms by (simp add: dash_step_def dash_inv_tick)
qed (use assms in \<open>auto simp: dash_step_def fetchStats_def dash_inv_def refilter_def\<close>)

lemma dash_reach_inv: "dash_reach lc s \<Longrightarrow> dash_inv lc s"
proof (induction rule: dash_reach.induct)
  case init
  then show ?case by (simp add: dash_inv_def fetchStats_def dash_init_def applyFilters_def js_sort_def)
next
  case (step s ev)
  then show ?case by (simp add: dash_inv_step)
qed

section \<open>The countdown\<close>

lemma ticks_armed:
  assumes "countdownTimer s" "int k < countdownSeconds s"
  shows "(tick ^^ k) s = s\<lparr>countdownSeconds := countdownSeconds s - int k\<rparr>"
  using assms(2)
proof (induction k)
  case 0
  then show ?case by simp
next
  case (Suc k)
  then have ih: "(tick ^^ k) s = s\<lparr>countdownSeconds := countdownSeconds s - int k\<rparr>" by simp
  have "tick (s\<lparr>countdownSeconds := countdownSeconds s - int k\<rparr>) =
          s\<lparr>countdownSeconds := countdownSeconds s - int (Suc k)\<rparr>"
    using Suc.prems assms(1) by (simp add: tick_def Let_def)
  then show ?case using ih by simp
qed

lemma auto_events_idle:
  assumes "list_all auto_event evs" "\<not> countdownTimer s"
  shows "requests (foldl (dash_step lc) s evs) = requests s \<and> \<not> countdownTimer (foldl (dash_step lc) s evs)"
  using assms
proof (induction evs arbitrary: s)
  case Nil
  then show ?case by simp
next
  case (Cons e evs)
  have "requests (dash_step lc s e) = requests s \<and> \<not> countdownTimer (dash_step lc s e)"
    using Cons.prems by (cases e) (simp_all add: auto_event_def dash_step_def refilter_def tick_def)
  then show ?case using Cons.IH [of "dash_step lc s e"] Cons.prems by simp
qed

lemma answer_without_servers_disarms:
  "r = NotOk \<or> (\<exists>c ri ov. r = Body None c ri ov) \<Longrightarrow> \<not> countdownTimer (fetch_answer lc r s) \<and> requests (fetch_answer lc r s) = requests s"
  by (auto simp: fetch_answer_def)

section \<open>Properties of the page\<close>

text \<open>
  C19 (the rendered list is current): in every state of the page, the list rendered is the
  result of \<^verbatim>\<open>applyFilters\<close> on the last fetched servers with the current region, sort
  and search term: every handler that changes one of them filters again.
\<close>

theorem rendered_list_current:
  assumes "dash_reach lc s"
  shows "filtered s = applyFilters lc (region s) (sortId s) (searchTerm s) (allServers s)"
  using dash_reach_inv [OF assms] by (simp add: dash_inv_def)

theorem rendered_list_current_witness:
  "dash_reach (\<lambda>_ _. 0) (dash_step (\<lambda>_ _. 0) (fetchStats True dash_init) (DRegion ''Asia'')) \<and>
   filtered (dash_step (\<lambda>_ _. 0) (fetchStats True dash_init) (DRegion ''Asia'')) = []"
proof -
  have h: "dash_reach (\<lambda>_ _. 0) (dash_step (\<lambda>_ _. 0) (fetchStats True dash_init) (DRegion ''Asia''))"
    by (rule dash_reach.step [OF dash_reach.init])
  have "allServers (dash_step (\<lambda>_ _. 0) (fetchStats True dash_init) (DRegion ''Asia'')) = []"
    by (simp add: dash_step_def refilter_def fetchStats_def dash_init_def)
  then show ?thesis using h rendered_list_current [OF h] by (simp add: applyFilters_def js_sort_def)
qed

text \<open>
  C20 (the countdown refreshes): in every state of the page where the countdown is armed, the
  ticks before the count runs out send no request, and the tick that brings it to zero sends
  exactly one forced \<^verbatim>\<open>/stats?refresh=1\<close> request and disarms the countdown.
\<close>

theorem countdown_refreshes:
  assumes "dash_reach lc s" "countdownTimer s"
  shows "(\<forall>k < nat (countdownSeconds s). requests ((tick ^^ k) s) = requests s) \<and>
         requests ((tick ^^ nat (countdownSeconds s)) s) = requests s @ [True] \<and>
         \<not> countdownTimer ((tick ^^ nat (countdownSeconds s)) s)"
proof -
  have pos: "1 \<le> countdownSeconds s" using dash_reach_inv [OF assms(1)] assms(2) by (simp add: dash_inv_def)
  obtain m where m: "nat (countdownSeconds s) = Suc m" using pos by (cases "nat (countdownSeconds s)") auto
  have before: "requests ((tick ^^ k) s) = requests s" if "k < nat (countdownSeconds s)" for k
    using ticks_armed [OF assms(2), of k] that by simp
  have "(tick ^^ m) s = s\<lparr>countdownSeconds := countdownSeconds s - int m\<rparr>"
    using ticks_armed [OF assms(2), of m] m by simp
  moreover have "countdownSeconds s - int m = 1" using m pos by simp
  ultimately have "(tick ^^ Suc m) s = fetchStats True (s\<lparr>countdownSeconds := 0, countdownTimer := False\<rparr>)"
    using assms(2) by (simp add: tick_def)
  then show ?thesis using before m by (simp add: fetchStats_def)
qed

theorem countdown_refreshes_witness:
  "dash_reach (\<lambda>_ _. 0) (dash_step (\<lambda>_ _. 0) (fetchStats True dash_init) (DAnswer (Body (Some []) None (Some 2) None))) \<and>
   countdownTimer (dash_step (\<lambda>_ _. 0) (fetchStats True dash_init) (DAnswer (Body (Some []) None (Some 2) None))) \<and>
   requests ((tick ^^ 2) (dash_step (\<lambda>_ _. 0) (fetchStats True dash_init) (DAnswer (Body (Some []) None (Some 2) None)))) = [True, True]"
proof -
  have h: "dash_reach (\<lambda>_ _. 0) (dash_step (\<lambda>_ _. 0) (fetchStats True dash_init) (DAnswer (Body (Some []) None (Some 2) None)))"
    by (rule dash_reach.step [OF dash_reach.init])
  have t: "countdownTimer (dash_step (\<lambda>_ _. 0) (fetchStats True dash_init) (DAnswer (Body (Some []) None (Some 2) None)))"
    and c: "countdownSeconds (dash_step (\<lambda>_ _. 0) (fetchStats True dash_init) (DAnswer (Body (Some []) None (Some 2) None))) = 2"
    and r: "requests (dash_step (\<lambda>_ _. 0) (fetchStats True dash_init) (DAnswer (Body (Some []) None (Some 2) None))) = [True]"
    by (simp_all add: dash_step_def fetch_answer_def startCountdown_def refilter_def fetchStats_def dash_init_def Let_def)
  show ?thesis using h countdown_refreshes [OF h t] t c r by simp
qed

end
