(* ===== verification/DashView.thy ===== *)
theory DashView
  imports Prelude
begin

text \<open>
  Model of the text the dashboard writes into its HTML (\<^verbatim>\<open>src/public/main.js\<close>,
  lines 55--100): \<^verbatim>\<open>escapeHtml\<close>, \<^verbatim>\<open>escapeRegExp\<close>, \<^verbatim>\<open>highlightTerm\<close>,
  \<^verbatim>\<open>formatUpdated\<close> and the address shown on a card. A \<^verbatim>\<open>replace\<close> with a global
  one-character pattern and a replacement without \<^verbatim>\<open>$\<close> is \<open>replace_all\<close>. To state
  what the browser shows, \<open>html_decode\<close> decodes the five character references the
  escaper writes (the only ones its output holds), and \<open>html_text\<close> is the text of a
  string of text and \<^verbatim>\<open><mark>\<close> elements: each text run decoded on its own.
\<close>

definition replace_all :: "char \<Rightarrow> string \<Rightarrow> string \<Rightarrow> string" where
  "replace_all c r s = concat (map (\<lambda>x. if x = c then r else [x]) s)"

definition escapeHtml :: "string option \<Rightarrow> string" where
  "escapeHtml v =
     replace_all (CHR 0x27) ''&#039;'' (replace_all (CHR 0x22) ''&quot;'' (replace_all (CHR ''>'') ''&gt;''
       (replace_all (CHR ''<'') ''&lt;'' (replace_all (CHR ''&'') ''&amp;'' (js_nullish v [])))))"

text \<open>The characters \<^verbatim>\<open>escapeRegExp\<close> prefixes with a backslash: the class
  \<^verbatim>\<open>[.*+?^${}()|[\]\\]\<close>, which is every syntax character of a pattern.\<close>

definition regex_syntax :: string where
  "regex_syntax = [CHR ''.'', CHR ''*'', CHR ''+'', CHR ''?'', CHR ''^'', CHR ''$'', CHR ''{'', CHR ''}'',
                   CHR ''('', CHR '')'', CHR ''|'', CHR ''['', CHR '']'', CHR 0x5C]"

definition escapeRegExp :: "string \<Rightarrow> string" where
  "escapeRegExp s = concat (map (\<lambda>c. if c \<in> set regex_syntax then [CHR 0x5C, c] else [c]) s)"

text \<open>\<^verbatim>\<open>safe.replace(pattern, "<mark>$1</mark>")\<close> with the global, case-insensitive
  pattern of a non-empty term (line 72): scanning from the left, every match is wrapped and
  the scan resumes after it. Under the \<^verbatim>\<open>i\<close> flag (without \<^verbatim>\<open>u\<close>) characters
  match when their upper cases are equal.\<close>

function mark_scan :: "string \<Rightarrow> string \<Rightarrow> string" where
  "mark_scan t [] = []"
| "mark_scan t (c # cs) =
     (if t \<noteq> [] \<and> length t \<le> Suc (length cs) \<and> map js_upper_char (take (length t) (c # cs)) = map js_upper_char t
      then ''<mark>'' @ take (length t) (c # cs) @ ''</mark>'' @ mark_scan t (drop (length t - 1) cs)
      else c # mark_scan t cs)"
  by pat_completeness auto
termination by (relation "measure (\<lambda>(t, s). length s)") auto

definition highlightTerm :: "string \<Rightarrow> string option \<Rightarrow> string" where
  "highlightTerm searchTerm text =
     (let safe = escapeHtml (Some (js_nullish text []))
      in if searchTerm = [] then safe else mark_scan searchTerm safe)"

text \<open>\<^verbatim>\<open>formatUpdated\<close>, lines 80--94, for a numeric timestamp (\<open>None\<close> when absent)
  and the clock \<^verbatim>\<open>Date.now()\<close>: a zero timestamp is falsy, and a time beyond
  \<open>8.64e15\<close> ms is an invalid date.\<close>

definition formatUpdated :: "int option \<Rightarrow> int \<Rightarrow> string" where
  "formatUpdated timestamp now =
     (case timestamp of None \<Rightarrow> ''Unknown''
      | Some t \<Rightarrow>
          if t = 0 \<or> 8640000000000000 < \<bar>t\<bar> then ''Unknown''
          else (let diffMinutes = (now - t) div 60000 in
                if diffMinutes < 1 then ''just now''
                else if diffMinutes = 1 then ''1 minute ago''
                else if diffMinutes < 60 then radix_string 10 (nat diffMinutes) @ '' minutes ago''
                else (let diffHours = diffMinutes div 60 in
                      if diffHours = 1 then ''1 hour ago''
                      else if diffHours < 24 then radix_string 10 (nat diffHours) @ '' hours ago''
                      else (let diffDays = diffHours div 24 in
                            radix_string 10 (nat diffDays) @ '' day'' @ (if diffDays = 1 then [] else ''s'') @ '' ago''))))"

text \<open>The address of a card, lines 97--100: an address with a colon not already in brackets
  (an IPv6 literal) is bracketed, and a truthy port is appended.\<close>

definition ip_display :: "string option \<Rightarrow> int option \<Rightarrow> string" where
  "ip_display ip port =
     (let ipValue = js_nullish ip ''?'';
          needsBrackets = CHR '':'' \<in> set ipValue \<and> \<not> (ipValue \<noteq> [] \<and> hd ipValue = CHR ''['');
          sanitizedIp = (if needsBrackets then ''['' @ ipValue @ '']'' else ipValue)
      in case port of Some p \<Rightarrow> if p \<noteq> 0 then sanitizedIp @ '':'' @ radix_string 10 (nat p) else sanitizedIp
         | None \<Rightarrow> sanitizedIp)"

text \<open>The browser's reading of the escaped text: the five character references.\<close>

definition html_refs :: "(string \<times> char) list" where
  "html_refs = [(''&amp;'', CHR ''&''), (''&lt;'', CHR ''<''), (''&gt;'', CHR ''>''),
                (''&quot;'', CHR 0x22), (''&#039;'', CHR 0x27)]"

function html_decode :: "string \<Rightarrow> string" where
  "html_decode [] = []"
| "html_decode (c # cs) =
     (case find (\<lambda>(e, d). take (length e) (c # cs) = e) html_refs of
        Some (e, d) \<Rightarrow> d # html_decode (drop (length e - 1) cs)
      | None \<Rightarrow> c # html_decode cs)"
  by pat_completeness auto
termination by (relation "measure length") auto

text \<open>The text of markup made of text runs and \<^verbatim>\<open><mark>\<close> elements: the tags are
  dropped and each run between them is decoded on its own (a reference never spans a tag).\<close>

function mark_runs :: "string \<Rightarrow> string \<Rightarrow> string list" where
  "mark_runs acc [] = [acc]"
| "mark_runs acc (c # cs) =
     (if take 6 (c # cs) = ''<mark>'' then acc # mark_runs [] (drop 5 cs)
      else if take 7 (c # cs) = ''</mark>'' then acc # mark_runs [] (drop 6 cs)
      else mark_runs (acc @ [c]) cs)"
  by pat_completeness auto
termination by (relation "measure (\<lambda>(acc, s). length s)") auto

definition html_text :: "string \<Rightarrow> string" where
  "html_text s = concat (map html_decode (mark_runs [] s))"

text \<open>The escape of one character, and the characters that make markup.\<close>

definition esc_char :: "char \<Rightarrow> string" where
  "esc_char c =
     (if c = CHR ''&'' then ''&amp;'' else if c = CHR ''<'' then ''&lt;'' else if c = CHR ''>'' then ''&gt;''
      else if c = CHR 0x22 then ''&quot;'' else if c = CHR 0x27 then ''&#039;'' else [c])"

definition markup_free :: "string \<Rightarrow> bool" where
  "markup_free s \<longleftrightarrow> list_all (\<lambda>c. c \<notin> {CHR ''<'', CHR ''>'', CHR 0x22, CHR 0x27}) s"

text \<open>The string a pattern of literal characters and escaped syntax characters matches, or
  \<open>None\<close> when the pattern holds an unescaped syntax character or another escape.\<close>

fun regex_literal :: "string \<Rightarrow> string option" where
  "regex_literal [] = Some []"
| "regex_literal [c] = (if c \<in> set regex_syntax then None else Some [c])"
| "regex_literal (c # d # cs) =
     (if c = CHR 0x5C then (if d \<in> set regex_syntax then map_option ((#) d) (regex_literal cs) else None)
      else if c \<in> set regex_syntax then None else map_option ((#) c) (regex_literal (d # cs)))"

section \<open>Escaping\<close>

lemma replace_all_append [simp]: "replace_all c r (xs @ ys) = replace_all c r xs @ replace_all c r ys"
  by (simp add: replace_all_def)

lemma esc_one: "replace_all (CHR 0x27) ''&#039;'' (replace_all (CHR 0x22) ''&quot;'' (replace_all (CHR ''>'') ''&gt;''
          (replace_all (CHR ''<'') ''&lt;'' (replace_all (CHR ''&'') ''&amp;'' [c])))) = esc_char c"
    by (simp add: replace_all_def esc_char_def)

lemma escapeHtml_chars: "escapeHtml (Some s) = concat (map esc_char s)"
proof (induction s)
  case Nil
  then show ?case by (simp add: escapeHtml_def replace_all_def)
next
  case (Cons c s)
  have "escapeHtml (Some (c # s)) = escapeHtml (Some [c]) @ escapeHtml (Some s)"
    unfolding escapeHtml_def js_nullish_simps by (metis append_Cons append_Nil replace_all_append)
  moreover have "escapeHtml (Some [c]) = esc_char c" unfolding escapeHtml_def js_nullish_simps by (rule esc_one)
  ultimately show ?case using Cons.IH by simp
qed

lemma html_decode_esc_char: "html_decode (esc_char c @ rest) = c # html_decode rest"
  by (simp add: esc_char_def html_refs_def)

lemma html_decode_escaped: "html_decode (concat (map esc_char s)) = s"
  by (induction s) (simp_all add: html_decode_esc_char)

lemma markup_free_append [simp]: "markup_free (xs @ ys) \<longleftrightarrow> markup_free xs \<and> markup_free ys"
  by (auto simp: markup_free_def list_all_iff)

lemma markup_free_esc_char: "markup_free (esc_char c)"
  unfolding esc_char_def markup_free_def by simp

lemma markup_free_escaped: "markup_free (concat (map esc_char s))"
  by (induction s) (simp_all add: markup_free_esc_char, simp add: markup_free_def)

lemma markup_free_lt: "markup_free s \<Longrightarrow> CHR ''<'' \<notin> set s"
  by (auto simp: markup_free_def list_all_iff)

lemma mark_runs_other: "c \<noteq> CHR ''<'' \<Longrightarrow> mark_runs acc (c # cs) = mark_runs (acc @ [c]) cs"
  by simp

lemma mark_runs_plain: "CHR ''<'' \<notin> set xs \<Longrightarrow> mark_runs acc (xs @ ys) = mark_runs (acc @ xs) ys"
proof (induction xs arbitrary: acc)
  case Nil
  then show ?case by simp
next
  case (Cons x xs)
  then have "x \<noteq> CHR ''<''" by auto
  then show ?case using Cons by (simp add: mark_runs_other del: mark_runs.simps)
qed

lemma mark_runs_open: "mark_runs acc (''<mark>'' @ ys) = acc # mark_runs [] ys"
  by simp

lemma mark_runs_close: "mark_runs acc (''</mark>'' @ ys) = acc # mark_runs [] ys"
  by simp

lemma mark_runs_marked:
  assumes "CHR ''<'' \<notin> set m"
  shows "mark_runs acc (''<mark>'' @ m @ ''</mark>'' @ r) = acc # m # mark_runs [] r"
proof -
  have "mark_runs acc (''<mark>'' @ m @ ''</mark>'' @ r) = acc # mark_runs [] (m @ ''</mark>'' @ r)"
    by (rule mark_runs_open)
  also have "\<dots> = acc # mark_runs m (''</mark>'' @ r)"
    using mark_runs_plain [OF assms, of "[]" "''</mark>'' @ r"] by (simp only: append_Nil)
  also have "\<dots> = acc # m # mark_runs [] r" by (simp only: mark_runs_close)
  finally show ?thesis .
qed

lemma mark_scan_runs:
  assumes "markup_free s" "markup_free acc"
  shows "list_all markup_free (mark_runs acc (mark_scan t s))"
  using assms
proof (induction t s arbitrary: acc rule: mark_scan.induct)
  case (1 t)
  then show ?case by simp
next
  case (2 t c cs)
  show ?case
  proof (cases "t \<noteq> [] \<and> length t \<le> Suc (length cs) \<and> map js_upper_char (take (length t) (c # cs)) = map js_upper_char t")
    case True
    define m where "m = take (length t) (c # cs)"
    have mf: "markup_free m" using 2(3) unfolding m_def markup_free_def list_all_iff by (meson in_set_takeD)
    have rest: "markup_free (drop (length t - 1) cs)" using 2(3) unfolding markup_free_def list_all_iff by (auto dest: in_set_dropD)
    have e: "mark_scan t (c # cs) = ''<mark>'' @ m @ ''</mark>'' @ mark_scan t (drop (length t - 1) cs)"
      using True by (simp add: m_def)
    have "mark_runs acc (mark_scan t (c # cs)) = acc # m # mark_runs [] (mark_scan t (drop (length t - 1) cs))"
      unfolding e by (rule mark_runs_marked [OF markup_free_lt [OF mf]])
    then show ?thesis using 2(1) [OF True rest] 2(4) mf by (simp add: markup_free_def)
  next
    case False
    have c: "markup_free [c]" "markup_free cs" using 2(3) by (simp_all add: markup_free_def)
    have e: "mark_scan t (c # cs) = c # mark_scan t cs"
      by (subst mark_scan.simps(2)) (rule if_not_P [OF False])
    have "c \<noteq> CHR ''<''" using c(1) by (simp add: markup_free_def)
    then have "mark_runs acc (mark_scan t (c # cs)) = mark_runs (acc @ [c]) (mark_scan t cs)"
      unfolding e by (rule mark_runs_other)
    then show ?thesis using 2(2) [OF False c(2)] 2(4) c(1) by simp
  qed
qed

lemma mark_runs_markup_free: "markup_free s \<Longrightarrow> mark_runs [] s = [s]"
  using mark_runs_plain [OF markup_free_lt, of s "[]" "[]"] by simp

lemma escapeHtml_some: "escapeHtml v = escapeHtml (Some (js_nullish v []))"
  by (cases v) (simp_all add: escapeHtml_def)

lemma regex_literal_plain:
  "c \<notin> set regex_syntax \<Longrightarrow> regex_literal (c # r) = map_option ((#) c) (regex_literal r)"
  by (cases r) (auto simp: regex_syntax_def)

lemma escapeRegExp_literal: "regex_literal (escapeRegExp t) = Some t"
proof (induction t)
  case Nil
  then show ?case by (simp add: escapeRegExp_def)
next
  case (Cons c t)
  then show ?case
    by (cases "c \<in> set regex_syntax") (simp_all add: escapeRegExp_def regex_literal_plain)
qed

section \<open>Properties of the rendered text\<close>

text \<open>
  C23 (escaped text is inert and faithful): whatever the value, \<^verbatim>\<open>escapeHtml\<close> writes no
  angle bracket and no quote, so its result can stand in element text and in a quoted
  attribute, and the browser reads it back as the original string.
\<close>

theorem escapeHtml_roundtrip:
  "markup_free (escapeHtml v) \<and> html_decode (escapeHtml v) = js_nullish v []"
  unfolding escapeHtml_some [of v] escapeHtml_chars by (simp add: markup_free_escaped html_decode_escaped)

text \<open>
  C24 (highlighting adds no markup but its own): whatever the name and the search term, the
  output of \<^verbatim>\<open>highlightTerm\<close> consists of \<^verbatim>\<open><mark>\<close> tags and text runs with no
  angle bracket and no quote.
\<close>

theorem highlight_no_markup:
  "list_all markup_free (mark_runs [] (highlightTerm searchTerm text))"
proof -
  have m: "markup_free (escapeHtml (Some (js_nullish text [])))"
    unfolding escapeHtml_chars by (rule markup_free_escaped)
  show ?thesis
  proof (cases "searchTerm = []")
    case True
    then show ?thesis using m by (simp add: highlightTerm_def mark_runs_markup_free)
  next
    case False
    have "list_all markup_free (mark_runs [] (mark_scan searchTerm (escapeHtml (Some (js_nullish text [])))))"
      using mark_scan_runs [OF m] by (simp add: markup_free_def)
    then show ?thesis using False by (simp add: highlightTerm_def)
  qed
qed


end
