(* ===== verification/Geo.thy ===== *)
theory Geo
  imports Prelude
begin

text \<open>
  Model of \<^verbatim>\<open>src/geo.js\<close>: the table \<^verbatim>\<open>COUNTRY_LOOKUP\<close> built from the
  \<^verbatim>\<open>countries-list\<close> data, \<^verbatim>\<open>normalizeIp\<close> and \<^verbatim>\<open>lookupGeo\<close>. The two
  libraries are parameters: the country entries in the order of \<^verbatim>\<open>Object.entries\<close>, the
  continent table (whose values are names or objects with a name, depending on the version of
  the package), and the database lookup of \<^verbatim>\<open>geoip-lite\<close>. Every field that may be
  \<^verbatim>\<open>null\<close> or \<^verbatim>\<open>undefined\<close> is an option.
\<close>

record country_entry =
  ce_name :: "string option"
  ce_continent :: "string option"

datatype continent_val = CStr string | CObj "string option"

record country_meta =
  m_name :: "string option"
  m_continentCode :: "string option"
  m_continentName :: "string option"

text \<open>The metadata of one entry, lines 5--14: an empty continent code is falsy, so it has
  no continent name.\<close>

definition country_meta_of :: "(string \<Rightarrow> continent_val option) \<Rightarrow> country_entry \<Rightarrow> country_meta" where
  "country_meta_of continents e =
     (let continentCode = ce_continent e;
          continentRaw = (case continentCode of Some c \<Rightarrow> if c \<noteq> [] then continents c else None | None \<Rightarrow> None);
          continentName = (case continentRaw of Some (CStr n) \<Rightarrow> Some n | Some (CObj n) \<Rightarrow> n | None \<Rightarrow> None)
      in \<lparr>m_name = ce_name e, m_continentCode = continentCode, m_continentName = continentName\<rparr>)"

text \<open>\<^verbatim>\<open>COUNTRY_LOOKUP\<close>, lines 4--16: the reduce writes each entry under its upper-cased
  code, a later entry overwriting an earlier one of the same key.\<close>

definition COUNTRY_LOOKUP ::
  "(string \<times> country_entry) list \<Rightarrow> (string \<Rightarrow> continent_val option) \<Rightarrow> string \<Rightarrow> country_meta option" where
  "COUNTRY_LOOKUP countries continents =
     foldl (\<lambda>acc (code, e). acc(js_upper code \<mapsto> country_meta_of continents e)) Map.empty countries"

text \<open>\<^verbatim>\<open>normalizeIp\<close>, lines 18--21: one leading \<^verbatim>\<open>[\<close> and one trailing \<^verbatim>\<open>]\<close>
  are removed, each on its own.\<close>

definition normalizeIp :: "string \<Rightarrow> string" where
  "normalizeIp ip =
     (let a = (case ip of c # cs \<Rightarrow> if c = CHR ''['' then cs else ip | [] \<Rightarrow> [])
      in if a \<noteq> [] \<and> last a = CHR '']'' then butlast a else a)"

record geo_result =
  g_country :: "string option"
  g_timezone :: "string option"
  g_region :: "string option"

text \<open>The object \<^verbatim>\<open>lookupGeo\<close> returns, its fields prefixed \<open>geo_\<close> (the server objects of
  the dashboard carry the same names).\<close>

record geo =
  geo_countryCode :: "string option"
  geo_countryName :: "string option"
  geo_continentCode :: "string option"
  geo_continentName :: "string option"
  geo_timezone :: "string option"
  geo_regionCode :: "string option"

text \<open>\<^verbatim>\<open>lookupGeo\<close>, lines 23--41, with the database lookup \<open>db\<close>; a missing or empty
  address and an address the database does not know give \<^verbatim>\<open>null\<close>.\<close>

definition lookupGeo ::
  "(string \<times> country_entry) list \<Rightarrow> (string \<Rightarrow> continent_val option) \<Rightarrow> (string \<Rightarrow> geo_result option) \<Rightarrow>
     string option \<Rightarrow> geo option" where
  "lookupGeo countries continents db ip =
     (case ip of None \<Rightarrow> None
      | Some i \<Rightarrow>
          if i = [] then None
          else (case db (normalizeIp i) of None \<Rightarrow> None
                | Some result \<Rightarrow>
                    (let cc = g_country result;
                         metadata = (case cc of Some c \<Rightarrow> if c \<noteq> [] then COUNTRY_LOOKUP countries continents (js_upper c) else None
                                     | None \<Rightarrow> None)
                     in Some \<lparr>geo_countryCode = cc,
                              geo_countryName = (case metadata of Some m \<Rightarrow> m_name m | None \<Rightarrow> None),
                              geo_continentCode = (case metadata of Some m \<Rightarrow> m_continentCode m | None \<Rightarrow> None),
                              geo_continentName = (case metadata of Some m \<Rightarrow> m_continentName m | None \<Rightarrow> None),
                              geo_timezone = g_timezone result, geo_regionCode = g_region result\<rparr>)))"

section \<open>The country table\<close>

lemma COUNTRY_LOOKUP_acc:
  "foldl (\<lambda>acc (code, e). acc(js_upper code \<mapsto> country_meta_of continents e)) m countries =
     m ++ map_of (rev (map (\<lambda>(code, e). (js_upper code, country_meta_of continents e)) countries))"
proof (induction countries arbitrary: m)
  case Nil
  then show ?case by simp
next
  case (Cons x xs)
  then show ?case by (cases x) (simp add: map_add_def fun_eq_iff split: option.splits)
qed

text \<open>With distinct upper-cased codes, the table is the map of the entries.\<close>

lemma COUNTRY_LOOKUP_map_of:
  assumes "distinct (map (js_upper \<circ> fst) countries)"
  shows "COUNTRY_LOOKUP countries continents =
           map_of (map (\<lambda>(code, e). (js_upper code, country_meta_of continents e)) countries)"
proof -
  have d: "distinct (map fst (map (\<lambda>(code, e). (js_upper code, country_meta_of continents e)) countries))"
    using assms by (simp add: comp_def case_prod_beta)
  show ?thesis unfolding COUNTRY_LOOKUP_def COUNTRY_LOOKUP_acc
    using map_of_rev_distinct [OF d] by simp
qed

lemma normalizeIp_bracketed: "normalizeIp (CHR ''['' # a @ [CHR '']'']) = a"
  by (simp add: normalizeIp_def)

section \<open>Properties of the lookup\<close>

text \<open>
  C40 (the geo fields come from the country's entry): when the country codes of the table are
  distinct once upper-cased and the database places a non-empty address in a country whose
  code equals an entry's code up to case, \<^verbatim>\<open>lookupGeo\<close> returns that code, the entry's
  name, continent code and continent name, and the database's time zone and region.
\<close>

theorem lookupGeo_country:
  assumes "distinct (map (js_upper \<circ> fst) countries)" "(code, e) \<in> set countries"
    and "i \<noteq> []" "db (normalizeIp i) = Some r" "g_country r = Some c" "c \<noteq> []" "js_upper c = js_upper code"
  shows "lookupGeo countries continents db (Some i) =
           Some \<lparr>geo_countryCode = Some c, geo_countryName = ce_name e, geo_continentCode = ce_continent e,
                 geo_continentName = m_continentName (country_meta_of continents e),
                 geo_timezone = g_timezone r, geo_regionCode = g_region r\<rparr>"
proof -
  have d: "distinct (map fst (map (\<lambda>(code, e). (js_upper code, country_meta_of continents e)) countries))"
    using assms(1) by (simp add: comp_def case_prod_beta)
  have "(js_upper code, country_meta_of continents e) \<in> set (map (\<lambda>(code, e). (js_upper code, country_meta_of continents e)) countries)"
    using assms(2) by force
  then have "COUNTRY_LOOKUP countries continents (js_upper c) = Some (country_meta_of continents e)"
    unfolding COUNTRY_LOOKUP_map_of [OF assms(1)] assms(7) by (rule map_of_is_SomeI [OF d])
  then show ?thesis using assms(3-6)
    by (simp add: lookupGeo_def) (simp add: country_meta_of_def Let_def)
qed

theorem lookupGeo_country_witness:
  "distinct (map (js_upper \<circ> fst) [(''fr'', \<lparr>ce_name = Some ''France'', ce_continent = Some ''EU''\<rparr>)]) \<and>
   lookupGeo [(''fr'', \<lparr>ce_name = Some ''France'', ce_continent = Some ''EU''\<rparr>)]
     (\<lambda>k. if k = ''EU'' then Some (CStr ''Europe'') else None)
     (\<lambda>_. Some \<lparr>g_country = Some ''FR'', g_timezone = None, g_region = None\<rparr>) (Some ''[::1]'') =
   Some \<lparr>geo_countryCode = Some ''FR'', geo_countryName = Some ''France'', geo_continentCode = Some ''EU'',
         geo_continentName = Some ''Europe'', geo_timezone = None, geo_regionCode = None\<rparr>"
proof -
  have h: "distinct (map (js_upper \<circ> fst) [(''fr'', \<lparr>ce_name = Some ''France'', ce_continent = Some ''EU''\<rparr>)])"
    by simp
  have m: "(''fr'', \<lparr>ce_name = Some ''France'', ce_continent = Some ''EU''\<rparr>)
             \<in> set [(''fr'', \<lparr>ce_name = Some ''France'', ce_continent = Some ''EU''\<rparr>)]" by simp
  have i: "''[::1]'' \<noteq> []" by simp
  have d: "(\<lambda>_. Some \<lparr>g_country = Some ''FR'', g_timezone = None, g_region = None\<rparr>) (normalizeIp ''[::1]'') =
             Some \<lparr>g_country = Some ''FR'', g_timezone = None, g_region = None\<rparr>" by simp
  have g: "g_country \<lparr>g_country = Some ''FR'', g_timezone = None, g_region = None\<rparr> = Some ''FR''" by simp
  have c: "''FR'' \<noteq> []" by simp
  have u: "js_upper ''FR'' = js_upper ''fr''" by code_simp
  show ?thesis
    using h lookupGeo_country [OF h m i d g c u, of "\<lambda>k. if k = ''EU'' then Some (CStr ''Europe'') else None"]
    by (simp add: country_meta_of_def)
qed

end
