(* ===== verification/Spec2Isabelle.thy ===== *)
theory Spec2Isabelle
  imports DirectoryDecoder Packets Minimap Handshake Extract Session Orchestrator Refresh ProxyPool Viewers
    DashClient DashView Geo
begin

text \<open>
  \<^bold>\<open>Verification model of slither_bot.\<close> The program collects live statistics from the
  servers of a browser game: it decodes the server directory (\<^verbatim>\<open>src/getActiveServers.js\<close>),
  loads a pool of forward proxies (\<^verbatim>\<open>src/getProxies.js\<close>), and for every server opens a
  WebSocket session through up to three proxies (\<^verbatim>\<open>src/index.js\<close>), in which a
  \<^verbatim>\<open>SocketClient\<close> (\<^verbatim>\<open>src/socketClient.js\<close>) answers the server's challenge,
  decodes the leaderboard and minimap packets and resolves one snapshot; the snapshots are
  kept in a store keyed by \<^verbatim>\<open>ip:port\<close> that the HTTP route \<^verbatim>\<open>/stats\<close> lists.
  The development is a shallow embedding: every function below computes what the JavaScript
  code computes, objects are records, exceptions are the left side of a sum, loops are
  recursive functions with a termination proof, and the event-driven parts are step
  functions with an inductive reachability relation.

  \<^bold>\<open>Theories and the code they model.\<close>
  \<^item> \<open>Prelude\<close>: the JavaScript primitives shared by all components: bytes as
    \<open>8 word\<close>, \<^verbatim>\<open>ToUint8\<close>, reads past the end of a \<^verbatim>\<open>Uint8Array\<close>, \<^verbatim>\<open>%\<close>
    with the sign of the dividend, \<^verbatim>\<open>toString(radix)\<close>, \<^verbatim>\<open>join\<close>, \<^verbatim>\<open>trim\<close> and
    array reads that may be \<^verbatim>\<open>undefined\<close>.
  \<^item> \<open>DirectoryDecoder\<close>: \<^verbatim>\<open>parseServers\<close> as a fold of \<open>parse_char\<close> over the
    blob, with \<open>store_field\<close> (the field dispatch) and \<open>emit_record\<close> (the one or two
    descriptors of a record and the cluster aggregates); \<open>getActiveServers\<close> takes the
    fetched blob or the fetch error as its input.
  \<^item> \<open>ScoreTable\<close>: the module arrays \<^verbatim>\<open>mscps\<close>, \<^verbatim>\<open>fmlts\<close>, \<^verbatim>\<open>fpsls\<close>,
    their rebuild \<open>setMscps\<close> and the score formula \<open>entry_score\<close>.
  \<^item> \<open>Packets\<close>: \<^verbatim>\<open>onMessage\<close>'s splitting of a frame (\<open>split_frame\<close>), the
    arena packet (\<open>got_arena\<close>) and the leaderboard decoder (\<open>got_leaderboard\<close>).
  \<^item> \<open>Minimap\<close>: the minimap decoder (\<open>got_minimap\<close>) as the list of cells it paints.
  \<^item> \<open>Handshake\<close>: \<^verbatim>\<open>onOpen\<close>'s frames, \<open>gotServerVersion\<close>,
    \<open>isValidVersion\<close> (challenge decoding, secret copy, identifier transform) and
    \<open>clientInit\<close>, over any extractor of type \<open>extractor\<close>.
  \<^item> \<open>Extract\<close>: \<^verbatim>\<open>extractStringAndNumber\<close>, the extractor of the code: its three
    regular expressions as functions computing the match the engine returns (\<open>init_at\<close>,
    \<open>concat_scan\<close>, \<open>for_at\<close>, with the backtracking search of a literal body in
    \<open>lit_body\<close>) and the unescaping through \<^verbatim>\<open>JSON.parse\<close> (\<open>json_unescape\<close>).
  \<^item> \<open>Session\<close>: one \<^verbatim>\<open>SocketClient\<close> as the record \<open>session\<close> (its fields, the
    socket state, the armed timers, the promises created and how they settled) and the step
    function \<open>step\<close> over events (\<open>EvAwait\<close> for \<^verbatim>\<open>returnStatsPromise\<close>, the four
    socket callbacks, and the firing of a timer); \<open>reach\<close> is the set of states a client
    reaches from its constructor. \<open>sys_step\<close> runs several clients over the one module
    score table they share.
  \<^item> \<open>ProxyPool\<close>: \<^verbatim>\<open>getProxies\<close>: the file cut into lines, trimmed and filtered, each
    line normalised to a URL (\<open>normalize_url\<close>, with \<open>encodeURIComponent\<close>) and
    labelled by the redaction expression (\<open>redact\<close>).
  \<^item> \<open>Orchestrator\<close>: \<^verbatim>\<open>getRandomProxy\<close>, \<^verbatim>\<open>drawProxy\<close>, \<^verbatim>\<open>isIPv6Literal\<close> and
    \<^verbatim>\<open>collectStatsWithProxies\<close>, whose retry loop is \<open>proxy_loop\<close>. The outcome of
    one session is a parameter \<open>att\<close> of the proxy used; the results of the
    \<open>Session\<close> theorems say which outcomes a session can have.
  \<^item> \<open>Refresh\<close>: \<^verbatim>\<open>refreshStats\<close> as a cycle of tasks, one per server, that complete
    in any order (\<open>refresh_start\<close>, \<open>task_done\<close>, \<open>cyc_step\<close>, reachability
    \<open>cyc_reach\<close>), the store \<^verbatim>\<open>latestStats\<close> as an association list in insertion
    order, and the \<^verbatim>\<open>/stats\<close> answer.
  \<^item> \<open>Viewers\<close>: the live-viewer registry of \<^verbatim>\<open>src/index.js\<close>
    (\<^verbatim>\<open>viewerClients\<close>, \<^verbatim>\<open>viewerCount\<close>, \<^verbatim>\<open>broadcastViewerCount\<close> and the route
    \<^verbatim>\<open>/live-viewers\<close>) as the step function \<open>vstep\<close> over connections, close events and
    heartbeat ticks, with the server's writes kept in order in \<open>outbox\<close>.
  \<^item> \<open>Geo\<close>: \<^verbatim>\<open>src/geo.js\<close>: \<open>COUNTRY_LOOKUP\<close>, \<open>normalizeIp\<close> and
    \<open>lookupGeo\<close>, with the two libraries it reads (country data, geo-IP database) as
    parameters.
  \<^item> \<open>Dashboard\<close>, \<open>DashClient\<close>, \<open>DashView\<close>: the browser script
    \<^verbatim>\<open>src/public/main.js\<close>: \<open>applyFilters\<close> with its filters, sorters and the stable
    sort \<open>js_sort\<close>; the page state \<open>dash\<close> and the step function \<open>dash_step\<close> over
    its callbacks (answers of \<^verbatim>\<open>fetchStats\<close>, countdown ticks, menus, search, viewer
    messages); \<open>escapeHtml\<close>, \<open>escapeRegExp\<close>, \<open>highlightTerm\<close>,
    \<open>formatUpdated\<close> and the card address. The browser's reading of the markup
    (\<open>html_decode\<close>, \<open>html_text\<close>) and the pattern syntax (\<open>regex_literal\<close>) are
    reference definitions used to state the properties.
  \<^item> This theory: the process state \<open>app_st\<close> (refresh cycle and viewer registry under any
    interleaving, \<open>app_step\<close>), the \<^verbatim>\<open>/stats\<close> answer in it, the answer as the
    dashboard reads it (\<open>to_client\<close>), and the properties that span the proxy pool, the
    refresh cycle, the viewer registry and the dashboard.

  \<^bold>\<open>What the lemmas show.\<close>
  \<^item> Session: a promise settles at most once; a client gives exactly one verdict once it
    completes; the next call's promise is settled at the latest when its timer fires; stats
    are delivered only after both the leaderboard and the minimap, in either order, with the
    same result; a completed client closes its socket; the handshake sends the identifier and
    then the init frame. These follow from the invariant \<open>client_inv\<close>, preserved by every
    event (rule induction on \<open>reach\<close>).
  \<^item> Decoders: the directory decoder, the framing and the leaderboard decoder invert the
    matching encoders on well-formed input; the minimap paints distinct cells of its grid;
    the table rebuild equals the arrays the specification describes; the identifier loop
    equals the specified letter transform; the extractor recovers the secret and the loop
    bound of a challenge of the documented shape.
  \<^item> Orchestrator and refresh: an always-failing server gets exactly three distinct proxies
    and one direct attempt iff its address is an IPv6 literal; a collection stops at the first
    success and makes at most four connections; a cycle's store ends as the specification's
    contract \<open>cycle_spec\<close> says, whatever the completion order; the busy flag is
    set exactly while tasks are pending, and every completion order ends the cycle; a proxy
    file without a usable line skips the cycle.
  \<^item> Proxy pool: every loaded proxy is a URL with a scheme, credentials are escaped and
    hidden from the label in the \<^verbatim>\<open>host:port:user:pass\<close> form, and lines load
    independently.
  \<^item> Viewers and \<^verbatim>\<open>/stats\<close>: \<^verbatim>\<open>viewerCount\<close> is the number of open
    connections although each runs \<^verbatim>\<open>cleanup\<close> twice, and each open connection was last
    sent the current count (invariant \<open>viewers_inv\<close>, rule induction on \<open>vreach\<close>);
    under any interleaving with the refresh cycle, \<^verbatim>\<open>/stats\<close> reports the number of
    stored servers and of open viewers.
  \<^item> Dashboard: the filters keep exactly the matching servers; the numeric sorters are the
    library's stable \<open>sort_key\<close> (via \<open>properties_for_sort_key\<close>); the rendered list is
    always the filtered list of the current state; an armed countdown sends exactly one
    forced refresh when it runs out; escaped text holds no markup and decodes back, and
    highlighting adds only its own tags; the country of a lookup comes from the matching
    table entry, case-insensitively.
  \<^item> Findings, each a theorem: \<open>isValidVersion\<close> never rejects a challenge; a
    challenge with a loop bound but no string throws an unhandled rejection; all clients
    share one score table; a second \<^verbatim>\<open>returnStatsPromise\<close> orphans the first promise;
    a seven-byte final leaderboard entry is dropped; the frame layout of the specification
    is split differently; scores are NaN before an arena packet; with a server listed twice
    the stored snapshot depends on the completion order; the label of a URL whose password
    holds an at sign shows the rest of the password; the unescaping step of the extractor
    never decodes an escape, contrary to its comment; a dashboard opened while the server
    still collects never refreshes by itself; highlighting a search term can split a
    character reference of the escaped name.

  \<^bold>\<open>Bounds and termination.\<close> Every function of the model is total: the loops are
  \<open>fun\<close> or \<open>function\<close> definitions with a measure (the bytes left of a frame or packet,
  the cells left of the minimap, the attempts left of \<open>PROXY_RETRY_LIMIT\<close> = 3, the text
  left of a scan), so no fuel is needed. The waits of the program (the socket, the 15-second
  timer, the awaited promises, the interval timers of the server and of the page) are events
  of the step functions, whose order is arbitrary; the liveness results say what the timer
  events guarantee.

  \<^bold>\<open>Not modelled.\<close> \<^verbatim>\<open>JSON.parse\<close> is modelled only on string literals, the
  one kind of text the extractor gives it; strings are sequences of code units below 256
  (Latin-1 for the case mappings), and the \<^verbatim>\<open>parseInt\<close> of a bound of more than 20
  digits is taken exact; the canvas background and the PNG encoding of the minimap; IEEE
  rounding of the score formula (scores are real numbers) and of the dashboard's numbers
  (integers); the random choices (identifier letters, proxy indices), given as inputs; the
  external libraries, as parameters: the URL parser of the proxy agent, the geo-IP database
  and country data, the collation of \<^verbatim>\<open>localeCompare\<close>; the geo fields of a stored
  entry, which the store does not keep; the clock; the HTML templates of the dashboard
  (\<^verbatim>\<open>buildCard\<close>, \<^verbatim>\<open>updateStatus\<close>), the \<^verbatim>\<open>Intl\<close> number formatting and the
  dropdown and minimap-modal handlers, which only write the DOM; express routing, static
  files and \<^verbatim>\<open>listen\<close>, and the \<^verbatim>\<open>refresh=1\<close> await of \<^verbatim>\<open>/stats\<close> (a refresh
  event before the answer in \<open>app_step\<close>).
\<close>

text \<open>A refresh cycle with the pool \<^verbatim>\<open>getProxies()\<close> loads (\<^verbatim>\<open>src/index.js\<close>, line 125).\<close>

definition refresh_with_file ::
  "(string \<Rightarrow> bool) \<Rightarrow> string option \<Rightarrow> (server \<Rightarrow> proxy_desc option \<Rightarrow> outcome) \<Rightarrow> (server \<Rightarrow> nat list) \<Rightarrow>
     server list \<Rightarrow> fetch_error + nat list \<Rightarrow> cycle \<Rightarrow> cycle" where
  "refresh_with_file ok file att rs seeds feed c = refresh_start att rs (getProxies ok file) seeds feed c"

text \<open>The module state of the server process (\<^verbatim>\<open>src/index.js\<close>, lines 21--26): the
  refresh cycle with \<^verbatim>\<open>latestStats\<close> and \<^verbatim>\<open>isRefreshing\<close>, and the viewer
  registry. The handlers the process registers (the refresh interval and the
  \<^verbatim>\<open>/live-viewers\<close> route, lines 196--239) run one at a time on the event loop,
  interleaved in any order: an event is a step of one of the two components.\<close>

record app_st =
  app_cyc :: cycle
  app_view :: viewer_st

datatype app_event = Cyc cyc_event | View viewer_ev

definition app_init :: app_st where
  "app_init = \<lparr>app_cyc = \<lparr>busy = False, store = [], tasks = []\<rparr>, app_view = viewers_init\<rparr>"

definition app_step ::
  "(server \<Rightarrow> 'p option \<Rightarrow> outcome) \<Rightarrow> (server \<Rightarrow> nat list) \<Rightarrow> 'p list \<Rightarrow> app_st \<Rightarrow> app_event \<Rightarrow> app_st" where
  "app_step att rs proxies a ev =
     (case ev of Cyc e \<Rightarrow> a\<lparr>app_cyc := cyc_step att rs proxies (app_cyc a) e\<rparr>
      | View e \<Rightarrow> a\<lparr>app_view := vstep (app_view a) e\<rparr>)"

inductive app_reach :: "(server \<Rightarrow> 'p option \<Rightarrow> outcome) \<Rightarrow> (server \<Rightarrow> nat list) \<Rightarrow> 'p list \<Rightarrow> app_st \<Rightarrow> bool"
  for att rs proxies where
  init: "app_reach att rs proxies app_init"
| step: "app_reach att rs proxies a \<Longrightarrow> app_reach att rs proxies (app_step att rs proxies a ev)"

text \<open>The \<^verbatim>\<open>/stats\<close> answer in a state of the process: the store and the viewer count
  read by the route (lines 252--268).\<close>

definition stats_route :: "app_st \<Rightarrow> stats_resp" where
  "stats_route a = stats_response (store (app_cyc a)) (vcount (app_view a))"

text \<open>The \<^verbatim>\<open>/stats\<close> answer as the dashboard reads it (\<^verbatim>\<open>src/index.js\<close>, lines
  256--270, read by \<^verbatim>\<open>src/public/main.js\<close>, lines 310--318): both answers have a 2xx
  status, so \<^verbatim>\<open>res.ok\<close> holds; the 202 body has no \<^verbatim>\<open>servers\<close> field. An entry is
  read as the dashboard's server object by \<open>enc\<close> (its JSON, with the geo fields).\<close>

definition to_client :: "(stat_entry \<Rightarrow> dserver) \<Rightarrow> stats_resp \<Rightarrow> dash_resp" where
  "to_client enc r =
     (case r of Collecting n \<Rightarrow> Body None None (Some (int n)) None
      | StatsList n c v l \<Rightarrow> Body (Some (map enc l)) (Some c) (Some (int n)) (Some v))"

lemma app_reach_parts:
  assumes "app_reach att rs proxies a"
  shows "cyc_reach att rs proxies (app_cyc a) \<and> vreach (app_view a)"
  using assms
proof induction
  case init
  then show ?case by (simp add: app_init_def cyc_reach.init vreach.init)
next
  case (step a ev)
  then show ?case by (cases ev) (simp_all add: app_step_def cyc_reach.step vreach.step)
qed

text \<open>
  C35 (no usable proxy, no cycle): when the proxy file is missing, or the agent rejects the
  URL of every line of it, a refresh call changes nothing: no task is launched, the busy
  flag is left as it was and the store is untouched.
\<close>

theorem refresh_without_proxies:
  assumes "list_all (\<lambda>l. \<not> ok (normalize_url l)) (proxy_lines txt)"
  shows "refresh_with_file ok (Some txt) att rs seeds feed c = c \<and> refresh_with_file ok None att rs seeds feed c = c"
proof -
  have "getProxies ok (Some txt) = []"
    using assms by (simp add: ProxyPool.getProxies_eq filter_empty_conv list_all_iff)
  moreover have "getProxies ok None = []" by (simp add: getProxies_def)
  ultimately show ?thesis by (simp add: refresh_with_file_def refresh_start_def)
qed

theorem refresh_without_proxies_witness:
  "list_all (\<lambda>l. \<not> (\<lambda>u. u \<noteq> ''http://h:1'') (normalize_url l)) (proxy_lines (''# pool'' @ [CHR 0x0A] @ ''h:1'')) \<and>
   refresh_with_file (\<lambda>u. u \<noteq> ''http://h:1'') (Some (''# pool'' @ [CHR 0x0A] @ ''h:1'')) (\<lambda>_ _. Inl Timeout) (\<lambda>_. [])
     [] (Inr []) \<lparr>busy = False, store = [], tasks = []\<rparr> = \<lparr>busy = False, store = [], tasks = []\<rparr>"
proof -
  have h: "list_all (\<lambda>l. \<not> (\<lambda>u. u \<noteq> ''http://h:1'') (normalize_url l)) (proxy_lines (''# pool'' @ [CHR 0x0A] @ ''h:1''))"
    by code_simp
  show ?thesis using h refresh_without_proxies [OF h] by simp
qed

text \<open>
  C17 (the stats answer counts servers and viewers): in every state of the process, whatever
  the interleaving of refresh events and viewer connections, \<^verbatim>\<open>/stats\<close> answers 202
  exactly when no snapshot is stored, and otherwise reports as \<^verbatim>\<open>serverCount\<close> the
  number of distinct server keys stored and as \<^verbatim>\<open>onlineViewers\<close> the number of open
  viewer connections.
\<close>

theorem stats_counts:
  assumes "app_reach att rs proxies a"
  shows "stats_route a =
           (if store (app_cyc a) = [] then Collecting 120
            else StatsList 120 (card (fst ` set (store (app_cyc a))))
                   (int (card (set (clients (app_view a))))) (map snd (store (app_cyc a))))"
proof -
  have c: "cyc_inv (app_cyc a)" and v: "viewers_inv (app_view a)"
    using app_reach_parts [OF assms] cyc_reach_inv vreach_inv by blast+
  have "card (fst ` set (store (app_cyc a))) = length (store (app_cyc a))"
    using c distinct_card [of "map fst (store (app_cyc a))"] by (simp add: cyc_inv_def)
  moreover have "vcount (app_view a) = int (card (set (clients (app_view a))))"
    using v by (simp add: viewers_inv_def distinct_card)
  ultimately show ?thesis by (simp add: stats_route_def stats_response_def REFRESH_INTERVAL_def Let_def)
qed

theorem stats_counts_witness:
  "app_reach (\<lambda>_ _. Inl Timeout) (\<lambda>_. []) ([] :: nat list) (app_step (\<lambda>_ _. Inl Timeout) (\<lambda>_. []) ([] :: nat list) app_init (View (VConnect 1))) \<and>
   stats_route (app_step (\<lambda>_ _. Inl Timeout) (\<lambda>_. []) ([] :: nat list) app_init (View (VConnect 1))) = Collecting 120"
proof -
  have h: "app_reach (\<lambda>_ _. Inl Timeout) (\<lambda>_. []) ([] :: nat list) (app_step (\<lambda>_ _. Inl Timeout) (\<lambda>_. []) ([] :: nat list) app_init (View (VConnect 1)))"
    by (rule app_reach.step [OF app_reach.init])
  have "store (app_cyc (app_step (\<lambda>_ _. Inl Timeout) (\<lambda>_. []) ([] :: nat list) app_init (View (VConnect 1)))) = []"
    by (simp add: app_step_def app_init_def)
  then show ?thesis using h stats_counts [OF h] by simp
qed

text \<open>
  C18 (a page opened while the server collects stops refreshing): when the first request of
  the dashboard is answered while no snapshot is stored, the 202 body has no server list, the
  page's \<^verbatim>\<open>fetchStats\<close> throws and its \<^verbatim>\<open>catch\<close> clears the countdown; from then
  on no tick, filter, search or viewer message sends another request, so the page stays empty
  until the user presses the refresh button.
\<close>

theorem collecting_halts_dashboard:
  assumes "list_all auto_event evs"
  shows "requests (foldl (dash_step lc) (dash_step lc (fetchStats True dash_init) (DAnswer (to_client enc (stats_response [] v)))) evs) = [True] \<and>
         \<not> countdownTimer (foldl (dash_step lc) (dash_step lc (fetchStats True dash_init) (DAnswer (to_client enc (stats_response [] v)))) evs)"
proof -
  define s0 where "s0 = dash_step lc (fetchStats True dash_init) (DAnswer (to_client enc (stats_response [] v)))"
  have "to_client enc (stats_response [] v) = Body None None (Some 120) None"
    by (simp add: to_client_def stats_response_def REFRESH_INTERVAL_def)
  then have "requests s0 = [True] \<and> \<not> countdownTimer s0"
    unfolding s0_def using answer_without_servers_disarms [of "Body None None (Some 120) None" lc]
    by (simp add: dash_step_def fetchStats_def dash_init_def)
  then show ?thesis using auto_events_idle [OF assms, of s0 lc] unfolding s0_def by simp
qed

theorem collecting_halts_dashboard_witness:
  "list_all auto_event [DTick, DRegion ''Asia'', DTick] \<and>
   requests (foldl (dash_step (\<lambda>_ _. 0)) (dash_step (\<lambda>_ _. 0) (fetchStats True dash_init)
     (DAnswer (to_client (\<lambda>_. \<lparr>continentName = None, countryName = None, ds_totalPlayers = None, ds_totalScore = None, ds_leaderboard = None\<rparr>)
       (stats_response [] 0)))) [DTick, DRegion ''Asia'', DTick]) = [True]"
proof -
  have h: "list_all auto_event [DTick, DRegion ''Asia'', DTick]" by (simp add: auto_event_def)
  show ?thesis using h collecting_halts_dashboard [OF h] by simp
qed

end
